theory Spec2Isabelle
  imports Main "HOL-Library.Word"
begin

unbundle bit_operations_syntax

section \<open>The ISA interrupt storm generator: data model\<close>

text \<open>
  The device of \<^verbatim>\<open>src/unnamed/part_000\<close> (struct \<^verbatim>\<open>ISAIrqStormState\<close>).
  The C fields keep their names and widths. Three collaborators of the device are part of
  the state, because the code drives them and the properties talk about them:
  \<^item> the output line \<^verbatim>\<open>s->irq\<close>: whether it has been bound (\<open>irq_bound\<close>), its current
    level, and how often \<^verbatim>\<open>qemu_irq_raise\<close>, \<^verbatim>\<open>qemu_irq_lower\<close> and
    \<^verbatim>\<open>qemu_irq_pulse\<close> were called on it;
  \<^item> the timer \<^verbatim>\<open>s->timer\<close>: whether it has been created, and its pending expiry time
    (\<open>None\<close> when it is not armed);
  \<^item> the I/O region \<^verbatim>\<open>s->io\<close>: whether it has been mapped.
  The virtual clock \<^verbatim>\<open>qemu_clock_get_ns(QEMU_CLOCK_VIRTUAL)\<close> is the argument \<open>now\<close> of
  every function that reads it. \<^verbatim>\<open>int64_t\<close> values are 64-bit words, compared with the
  signed order where the C code compares \<^verbatim>\<open>int64_t\<close>.
\<close>

type_synonym u8 = "8 word"
type_synonym u32 = "32 word"
type_synonym u64 = "64 word"
type_synonym i64 = "64 word"

record ISAIrqStormState =
  io_mapped :: bool
  timer_created :: bool
  timer_expire :: "i64 option"
  irq_bound :: bool
  line_level :: bool
  line_raises :: nat
  line_lowers :: nat
  line_pulses :: nat
  iobase :: u32
  iosize :: u32
  isairq :: u32
  burst :: u32
  period_us :: u32
  start_enabled :: bool
  level_triggered :: bool
  control :: u8
  irq_asserted :: bool
  next_deadline_ns :: i64
  pulses_emitted :: u64
  timer_cb_count :: u64
  config_writes :: u64
  enable_toggle_count :: u64

subsection \<open>Register offsets and bit masks\<close>

definition IRQ_STORM_REG_CTRL :: u64 where "IRQ_STORM_REG_CTRL = 0x00"
definition IRQ_STORM_REG_IRQ :: u64 where "IRQ_STORM_REG_IRQ = 0x01"
definition IRQ_STORM_REG_BURST :: u64 where "IRQ_STORM_REG_BURST = 0x02"
definition IRQ_STORM_REG_STATUS :: u64 where "IRQ_STORM_REG_STATUS = 0x03"
definition IRQ_STORM_REG_PERIOD_US :: u64 where "IRQ_STORM_REG_PERIOD_US = 0x04"
definition IRQ_STORM_REG_PULSES_LO :: u64 where "IRQ_STORM_REG_PULSES_LO = 0x08"
definition IRQ_STORM_REG_PULSES_HI :: u64 where "IRQ_STORM_REG_PULSES_HI = 0x0c"
definition IRQ_STORM_REG_TIMER_CB :: u64 where "IRQ_STORM_REG_TIMER_CB = 0x10"
definition IRQ_STORM_REG_CFG_WRITES :: u64 where "IRQ_STORM_REG_CFG_WRITES = 0x14"
definition IRQ_STORM_REG_EN_TOGGLES :: u64 where "IRQ_STORM_REG_EN_TOGGLES = 0x18"
definition IRQ_STORM_REG_ACK :: u64 where "IRQ_STORM_REG_ACK = 0x1c"

definition IRQ_STORM_CTRL_ENABLE :: u8 where "IRQ_STORM_CTRL_ENABLE = 1"
definition IRQ_STORM_CTRL_LEVEL :: u8 where "IRQ_STORM_CTRL_LEVEL = 2"

definition IRQ_STORM_STATUS_ENABLED :: u8 where "IRQ_STORM_STATUS_ENABLED = 1"
definition IRQ_STORM_STATUS_ASSERT :: u8 where "IRQ_STORM_STATUS_ASSERT = 2"
definition IRQ_STORM_STATUS_LEVEL :: u8 where "IRQ_STORM_STATUS_LEVEL = 4"

definition IRQ_STORM_MAX_BURST :: u32 where "IRQ_STORM_MAX_BURST = 100000"

text \<open>
  \<^verbatim>\<open>SCALE_US\<close> comes from QEMU's \<^verbatim>\<open>qemu/timer.h\<close> (nanoseconds per microsecond). In
  \<^verbatim>\<open>MAX(1U, s->period_us) * SCALE_US\<close> both operands are converted to \<^verbatim>\<open>unsigned int\<close>,
  so the product is a 32-bit one.
\<close>

definition SCALE_US :: u32 where "SCALE_US = 1000"

abbreviation ctrl_enabled :: "ISAIrqStormState \<Rightarrow> bool" where
  "ctrl_enabled s \<equiv> control s AND IRQ_STORM_CTRL_ENABLE \<noteq> 0"

abbreviation ctrl_level :: "ISAIrqStormState \<Rightarrow> bool" where
  "ctrl_level s \<equiv> control s AND IRQ_STORM_CTRL_LEVEL \<noteq> 0"

section \<open>The collaborators: line and timer\<close>

definition qemu_irq_raise :: "ISAIrqStormState \<Rightarrow> ISAIrqStormState" where
  "qemu_irq_raise s = s\<lparr>line_level := True, line_raises := line_raises s + 1\<rparr>"

definition qemu_irq_lower :: "ISAIrqStormState \<Rightarrow> ISAIrqStormState" where
  "qemu_irq_lower s = s\<lparr>line_level := False, line_lowers := line_lowers s + 1\<rparr>"

text \<open>\<^verbatim>\<open>qemu_irq_pulse\<close> drives the line high and low again.\<close>

definition qemu_irq_pulse :: "ISAIrqStormState \<Rightarrow> ISAIrqStormState" where
  "qemu_irq_pulse s = s\<lparr>line_level := False, line_pulses := line_pulses s + 1\<rparr>"

definition timer_mod :: "i64 \<Rightarrow> ISAIrqStormState \<Rightarrow> ISAIrqStormState" where
  "timer_mod expire s = s\<lparr>timer_expire := Some expire\<rparr>"

definition timer_del :: "ISAIrqStormState \<Rightarrow> ISAIrqStormState" where
  "timer_del s = s\<lparr>timer_expire := None\<rparr>"

section \<open>The device functions\<close>

definition irq_storm_period_ns :: "ISAIrqStormState \<Rightarrow> u64" where
  "irq_storm_period_ns s = ucast (max (1 :: u32) (period_us s) * SCALE_US)"

definition irq_storm_irq_deassert :: "ISAIrqStormState \<Rightarrow> ISAIrqStormState" where
  "irq_storm_irq_deassert s =
     (if irq_asserted s then (qemu_irq_lower s)\<lparr>irq_asserted := False\<rparr> else s)"

definition irq_storm_schedule_from_now :: "i64 \<Rightarrow> ISAIrqStormState \<Rightarrow> ISAIrqStormState" where
  "irq_storm_schedule_from_now now s =
     (if \<not> ctrl_enabled s then s
      else let s1 = s\<lparr>next_deadline_ns := now + irq_storm_period_ns s\<rparr>
           in timer_mod (next_deadline_ns s1) s1)"

text \<open>
  The division \<^verbatim>\<open>(uint64_t)(now - s->next_deadline_ns) / period_ns\<close> traps when
  \<open>period_ns\<close> is zero: that is the result \<open>Inl DivideByZero\<close>. All other arithmetic is
  modular: \<^verbatim>\<open>int64_t += uint64_t\<close> is computed in \<^verbatim>\<open>uint64_t\<close> and converted back, and
  the signed subtraction \<^verbatim>\<open>now - s->next_deadline_ns\<close> wraps (QEMU is compiled with
  \<^verbatim>\<open>-fwrapv\<close>). The comparison \<^verbatim>\<open>s->next_deadline_ns <= now\<close> is the signed one.
\<close>

datatype fault = DivideByZero

definition irq_storm_schedule_next :: "i64 \<Rightarrow> ISAIrqStormState \<Rightarrow> fault + ISAIrqStormState" where
  "irq_storm_schedule_next now s =
     (if \<not> ctrl_enabled s then Inr s
      else let period_ns = irq_storm_period_ns s;
               s1 = s\<lparr>next_deadline_ns := next_deadline_ns s + period_ns\<rparr>
           in if next_deadline_ns s1 \<le>s now
              then (if period_ns = 0 then Inl DivideByZero
                    else let missed = (now - next_deadline_ns s1) div period_ns + 1;
                             s2 = s1\<lparr>next_deadline_ns := next_deadline_ns s1 + missed * period_ns\<rparr>
                         in Inr (timer_mod (next_deadline_ns s2) s2))
              else Inr (timer_mod (next_deadline_ns s1) s1))"

text \<open>The loop \<^verbatim>\<open>for (i = 0; i < pulses; i++) qemu_irq_pulse(s->irq);\<close>\<close>

function pulse_loop :: "u32 \<Rightarrow> u32 \<Rightarrow> ISAIrqStormState \<Rightarrow> ISAIrqStormState" where
  "pulse_loop i pulses s =
     (if i < pulses then pulse_loop (i + 1) pulses (qemu_irq_pulse s) else s)"
  by pat_completeness auto
termination
proof (relation "measure (\<lambda>(i, pulses, s). unat pulses - unat i)")
  show "wf (measure (\<lambda>(i :: u32, pulses :: u32, s :: ISAIrqStormState). unat pulses - unat i))"
    by simp
next
  fix i pulses :: u32 and s :: ISAIrqStormState
  assume lt: "i < pulses"
  then have "unat (i + 1) = unat i + 1"
    by unat_arith
  with lt show "((i + 1, pulses, qemu_irq_pulse s), (i, pulses, s))
        \<in> measure (\<lambda>(i, pulses, s). unat pulses - unat i)"
    by (simp add: word_less_nat_alt)
qed

definition irq_storm_timer_cb :: "i64 \<Rightarrow> ISAIrqStormState \<Rightarrow> fault + ISAIrqStormState" where
  "irq_storm_timer_cb now s =
     (if \<not> ctrl_enabled s then Inr s
      else let s1 = s\<lparr>timer_cb_count := timer_cb_count s + 1\<rparr>;
               s2 = (if ctrl_level s1
                     then (if \<not> irq_asserted s1
                           then (qemu_irq_raise s1)\<lparr>irq_asserted := True,
                                   pulses_emitted := pulses_emitted s1 + 1\<rparr>
                           else s1)
                     else let pulses = min (max (1 :: u32) (burst s1)) IRQ_STORM_MAX_BURST;
                              s' = pulse_loop 0 pulses s1
                          in s'\<lparr>pulses_emitted := pulses_emitted s' + ucast pulses\<rparr>)
           in irq_storm_schedule_next now s2)"

text \<open>
  The register file. Both functions ignore the access size (\<^verbatim>\<open>(void)size\<close>), which is
  left out. \<^verbatim>\<open>hwaddr\<close> and the written value are 64-bit.
\<close>

definition irq_storm_read :: "ISAIrqStormState \<Rightarrow> u64 \<Rightarrow> u64" where
  "irq_storm_read s addr =
     (if addr = IRQ_STORM_REG_CTRL then ucast (control s)
      else if addr = IRQ_STORM_REG_IRQ then ucast (isairq s)
      else if addr = IRQ_STORM_REG_BURST then ucast (burst s)
      else if addr = IRQ_STORM_REG_STATUS then
        ucast (((if ctrl_enabled s then IRQ_STORM_STATUS_ENABLED else 0)
                OR (if irq_asserted s then IRQ_STORM_STATUS_ASSERT else 0))
                OR (if ctrl_level s then IRQ_STORM_STATUS_LEVEL else 0))
      else if addr = IRQ_STORM_REG_PERIOD_US then ucast (period_us s)
      else if addr = IRQ_STORM_REG_PULSES_LO then ucast (ucast (pulses_emitted s) :: u32)
      else if addr = IRQ_STORM_REG_PULSES_HI then
        ucast (ucast (drop_bit 32 (pulses_emitted s)) :: u32)
      else if addr = IRQ_STORM_REG_TIMER_CB then ucast (ucast (timer_cb_count s) :: u32)
      else if addr = IRQ_STORM_REG_CFG_WRITES then ucast (ucast (config_writes s) :: u32)
      else if addr = IRQ_STORM_REG_EN_TOGGLES then
        ucast (ucast (enable_toggle_count s) :: u32)
      else 0)"

text \<open>
  The body of \<^verbatim>\<open>case IRQ_STORM_REG_CTRL\<close> of \<^verbatim>\<open>irq_storm_write\<close>, with the locals
  \<^verbatim>\<open>old_control\<close>, \<^verbatim>\<open>was_level\<close> and \<^verbatim>\<open>was_enabled\<close> that the function computes on entry.
\<close>

definition irq_storm_write_ctrl :: "i64 \<Rightarrow> ISAIrqStormState \<Rightarrow> u64 \<Rightarrow> ISAIrqStormState" where
  "irq_storm_write_ctrl now s val =
     (let old_control = control s;
          was_level = (old_control AND IRQ_STORM_CTRL_LEVEL \<noteq> 0);
          was_enabled = (old_control AND IRQ_STORM_CTRL_ENABLE \<noteq> 0);
          new_control = (ucast val :: u8) AND (IRQ_STORM_CTRL_ENABLE OR IRQ_STORM_CTRL_LEVEL);
          s1 = (if new_control \<noteq> old_control
                then s\<lparr>config_writes := config_writes s + 1, control := new_control\<rparr>
                else s);
          is_level = ctrl_level s1;
          s2 = (if was_level \<and> \<not> is_level then irq_storm_irq_deassert s1 else s1);
          is_enabled = ctrl_enabled s2;
          s3 = (if is_enabled \<noteq> was_enabled
                then s2\<lparr>enable_toggle_count := enable_toggle_count s2 + 1\<rparr>
                else s2)
      in if is_enabled
         then (if \<not> was_enabled then irq_storm_schedule_from_now now s3 else s3)
         else irq_storm_irq_deassert (timer_del s3))"

definition irq_storm_write :: "i64 \<Rightarrow> ISAIrqStormState \<Rightarrow> u64 \<Rightarrow> u64 \<Rightarrow> ISAIrqStormState" where
  "irq_storm_write now s addr val =
     (if addr = IRQ_STORM_REG_CTRL then irq_storm_write_ctrl now s val
      else if addr = IRQ_STORM_REG_BURST then
        (if (ucast val :: u32) \<noteq> burst s
         then s\<lparr>burst := ucast val, config_writes := config_writes s + 1\<rparr>
         else s)
      else if addr = IRQ_STORM_REG_PERIOD_US then
        (if (ucast val :: u32) \<noteq> period_us s
         then let s1 = s\<lparr>period_us := ucast val, config_writes := config_writes s + 1\<rparr>
              in if ctrl_enabled s1 then irq_storm_schedule_from_now now s1 else s1
         else s)
      else if addr = IRQ_STORM_REG_ACK then
        (if val \<noteq> 0 then irq_storm_irq_deassert s else s)
      else s)"

section \<open>Construction\<close>

text \<open>
  A QOM object is allocated zeroed and its properties (\<^verbatim>\<open>irq_storm_properties\<close>) are set
  before \<^verbatim>\<open>realize\<close> runs: \<open>irq_storm_instance\<close> is that object. \<^verbatim>\<open>irq_storm_realize\<close>
  reports failure through \<^verbatim>\<open>errp\<close> and works on the object in place, so the model returns
  the error, if any, together with the object as the function leaves it.
\<close>

definition irq_storm_instance ::
  "u32 \<Rightarrow> u32 \<Rightarrow> u32 \<Rightarrow> u32 \<Rightarrow> u32 \<Rightarrow> bool \<Rightarrow> bool \<Rightarrow> ISAIrqStormState" where
  "irq_storm_instance p_iobase p_iosize p_irq p_burst p_period_us p_start_enabled p_level_triggered =
     \<lparr>io_mapped = False, timer_created = False, timer_expire = None, irq_bound = False,
      line_level = False, line_raises = 0, line_lowers = 0, line_pulses = 0,
      iobase = p_iobase, iosize = p_iosize, isairq = p_irq, burst = p_burst,
      period_us = p_period_us, start_enabled = p_start_enabled,
      level_triggered = p_level_triggered,
      control = 0, irq_asserted = False, next_deadline_ns = 0,
      pulses_emitted = 0, timer_cb_count = 0, config_writes = 0, enable_toggle_count = 0\<rparr>"

text \<open>The defaults of \<^verbatim>\<open>irq_storm_properties\<close>.\<close>

definition irq_storm_default_instance :: ISAIrqStormState where
  "irq_storm_default_instance = irq_storm_instance 0x560 0x20 5 128 100 True False"

datatype realize_error = IrqOutOfRange | IosizeTooSmall

definition irq_storm_realize ::
  "i64 \<Rightarrow> ISAIrqStormState \<Rightarrow> realize_error option \<times> ISAIrqStormState" where
  "irq_storm_realize now s =
     (if isairq s > 15 then (Some IrqOutOfRange, s)
      else if iosize s < 0x20 then (Some IosizeTooSmall, s)
      else let s1 = s\<lparr>irq_bound := True\<rparr>;
               s2 = s1\<lparr>timer_created := True, timer_expire := None\<rparr>;
               s3 = s2\<lparr>io_mapped := True\<rparr>;
               s4 = (if level_triggered s3
                     then s3\<lparr>control := control s3 OR IRQ_STORM_CTRL_LEVEL\<rparr> else s3);
               s5 = (if start_enabled s4
                     then irq_storm_schedule_from_now now
                            (s4\<lparr>control := control s4 OR IRQ_STORM_CTRL_ENABLE\<rparr>)
                     else s4)
           in (None, s5))"

section \<open>Runs of the device\<close>

text \<open>
  The timer subsystem calls the callback of a timer that is armed and due, after taking it
  off its list of pending timers.
\<close>

definition timer_dispatch :: "i64 \<Rightarrow> ISAIrqStormState \<Rightarrow> (fault + ISAIrqStormState) option" where
  "timer_dispatch now s =
     (case timer_expire s of
        None \<Rightarrow> None
      | Some d \<Rightarrow> if d \<le>s now then Some (irq_storm_timer_cb now (s\<lparr>timer_expire := None\<rparr>))
                  else None)"

text \<open>
  The states a device can be in: realized from a fresh object, then driven by register
  writes and by fires of its timer. Register reads do not change the state.
\<close>

inductive reachable :: "ISAIrqStormState \<Rightarrow> bool" where
  realized:
    "irq_storm_realize now
       (irq_storm_instance p_iobase p_iosize p_irq p_burst p_period_us p_en p_lvl) = (None, s)
     \<Longrightarrow> reachable s"
| written: "reachable s \<Longrightarrow> reachable (irq_storm_write now s addr val)"
| fired: "reachable s \<Longrightarrow> timer_dispatch now s = Some (Inr s') \<Longrightarrow> reachable s'"

text \<open>Consecutive executions of the callback, at the given clock readings.\<close>

fun fires :: "i64 list \<Rightarrow> ISAIrqStormState \<Rightarrow> fault + ISAIrqStormState" where
  "fires [] s = Inr s"
| "fires (now # nows) s =
     (case irq_storm_timer_cb now s of Inl e \<Rightarrow> Inl e | Inr s' \<Rightarrow> fires nows s')"

text \<open>
  The operations of the device. A read leaves the state as it is and returns a value; the
  step function returns the state after the operation.
\<close>

datatype operation = Read u64 | Write u64 u64 | TimerFire

fun step :: "i64 \<Rightarrow> operation \<Rightarrow> ISAIrqStormState \<Rightarrow> fault + ISAIrqStormState" where
  "step now (Read addr) s = Inr s"
| "step now (Write addr val) s = Inr (irq_storm_write now s addr val)"
| "step now TimerFire s = irq_storm_timer_cb now s"

text \<open>A run of operations, each at its clock reading; it stops at the first trap.\<close>

fun run :: "(i64 \<times> operation) list \<Rightarrow> ISAIrqStormState \<Rightarrow> fault + ISAIrqStormState" where
  "run [] s = Inr s"
| "run ((now, op) # ops) s =
     (case step now op s of Inl e \<Rightarrow> Inl e | Inr s' \<Rightarrow> run ops s')"

text \<open>
  The operations that leave a level interrupt held on an enabled level-mode device: every
  read and every fire, and every write except a write to ACK, a CTRL write whose value
  clears ENABLE or LEVEL, and a \<^verbatim>\<open>PERIOD_US\<close> write whose period in nanoseconds is zero
  (after which the next fire traps).
\<close>

fun level_hold_op :: "operation \<Rightarrow> bool" where
  "level_hold_op (Read addr) = True"
| "level_hold_op TimerFire = True"
| "level_hold_op (Write addr val) =
     (addr \<noteq> IRQ_STORM_REG_ACK \<and>
      (addr = IRQ_STORM_REG_CTRL \<longrightarrow>
         (ucast val :: u8) AND (IRQ_STORM_CTRL_ENABLE OR IRQ_STORM_CTRL_LEVEL) =
           IRQ_STORM_CTRL_ENABLE OR IRQ_STORM_CTRL_LEVEL) \<and>
      (addr = IRQ_STORM_REG_PERIOD_US \<longrightarrow>
         max (1 :: u32) (ucast val) * SCALE_US \<noteq> 0))"

text \<open>The number of fires in a run.\<close>

definition fire_count :: "(i64 \<times> operation) list \<Rightarrow> nat" where
  "fire_count ops = length (filter (\<lambda>p. snd p = TimerFire) ops)"

text \<open>
  The counters are 64-bit and wrap around at \<open>2 ^ 64\<close>. One operation adds at most
  \<^verbatim>\<open>IRQ_STORM_MAX_BURST\<close> to \<open>pulses_emitted\<close> and at most one to each of the others.
\<close>

definition counters_below_wrap :: "ISAIrqStormState \<Rightarrow> bool" where
  "counters_below_wrap s \<longleftrightarrow>
     unat (pulses_emitted s) + 100000 < 2 ^ 64 \<and>
     unat (timer_cb_count s) + 1 < 2 ^ 64 \<and>
     unat (config_writes s) + 1 < 2 ^ 64 \<and>
     unat (enable_toggle_count s) + 1 < 2 ^ 64"

section \<open>The consumer's stable 64-bit read\<close>

text \<open>
  \<^verbatim>\<open>src/src/sel4_irq_handle.c\<close>. A read of a port inside the device's I/O window reaches
  \<^verbatim>\<open>irq_storm_read\<close> with the offset of the port in the window; \<^verbatim>\<open>io_in32\<close> keeps the
  low 32 bits of the result.
\<close>

type_synonym u16 = "16 word"

definition STORM_IOBASE :: u16 where "STORM_IOBASE = 0x560"
definition REG_PULSES_LO :: u16 where "REG_PULSES_LO = STORM_IOBASE + 0x08"
definition REG_PULSES_HI :: u16 where "REG_PULSES_HI = STORM_IOBASE + 0x0C"

definition io_in32 :: "ISAIrqStormState \<Rightarrow> u16 \<Rightarrow> u32" where
  "io_in32 s port = ucast (irq_storm_read s (ucast port - ucast (iobase s)))"

text \<open>
  The device runs between the port reads of the loop, so every read sees its own device
  state. The list gives the device states at the successive port reads, in order; the
  loop takes three of them in each round. \<open>None\<close> means that the loop is still running
  when the list ends.
\<close>

fun read_u64_lohi_stable :: "u16 \<Rightarrow> u16 \<Rightarrow> ISAIrqStormState list \<Rightarrow> u64 option" where
  "read_u64_lohi_stable lo_port hi_port (s1 # s2 # s3 # rest) =
     (let hi1 = io_in32 s1 hi_port;
          lo = io_in32 s2 lo_port;
          hi2 = io_in32 s3 hi_port
      in if hi1 \<noteq> hi2 then read_u64_lohi_stable lo_port hi_port rest
         else Some (push_bit 32 (ucast hi2 :: u64) OR ucast lo))"
| "read_u64_lohi_stable lo_port hi_port _ = None"

section \<open>Reference values\<close>

text \<open>
  The offsets of the register table: every offset that \<^verbatim>\<open>irq_storm_read\<close> or
  \<^verbatim>\<open>irq_storm_write\<close> names in its \<^verbatim>\<open>switch\<close>.
\<close>

definition defined_offsets :: "u64 set" where
  "defined_offsets = {IRQ_STORM_REG_CTRL, IRQ_STORM_REG_IRQ, IRQ_STORM_REG_BURST,
     IRQ_STORM_REG_STATUS, IRQ_STORM_REG_PERIOD_US, IRQ_STORM_REG_PULSES_LO,
     IRQ_STORM_REG_PULSES_HI, IRQ_STORM_REG_TIMER_CB, IRQ_STORM_REG_CFG_WRITES,
     IRQ_STORM_REG_EN_TOGGLES, IRQ_STORM_REG_ACK}"

text \<open>
  Two realized devices used as concrete inputs: the default one (edge mode, enabled, burst
  128, period 100 microseconds) and a level-triggered one, both realized at clock 0.
\<close>

definition edge_device :: ISAIrqStormState where
  "edge_device = snd (irq_storm_realize 0 irq_storm_default_instance)"

definition level_device :: ISAIrqStormState where
  "level_device = snd (irq_storm_realize 0 (irq_storm_instance 0x560 0x20 5 128 100 True True))"

text \<open>The default device after a write of 5 to BURST.\<close>

definition burst5_device :: ISAIrqStormState where
  "burst5_device = irq_storm_write 0 edge_device IRQ_STORM_REG_BURST 5"

text \<open>The level-triggered device after the first fire of its timer.\<close>

definition level_device_fired :: ISAIrqStormState where
  "level_device_fired =
     (case timer_dispatch 100000 level_device of Some (Inr s) \<Rightarrow> s | _ \<Rightarrow> level_device)"

text \<open>The fired level-triggered device after a CTRL write that clears ENABLE.\<close>

definition disabled_device :: ISAIrqStormState where
  "disabled_device = irq_storm_write 150000 level_device_fired IRQ_STORM_REG_CTRL 2"

text \<open>
  The disabled device after a CTRL write that sets ENABLE again (LEVEL still set), and
  after the fire of the timer that this write armed.
\<close>

definition rearmed_device :: ISAIrqStormState where
  "rearmed_device = irq_storm_write 250000 disabled_device IRQ_STORM_REG_CTRL 3"

definition refired_device :: ISAIrqStormState where
  "refired_device =
     (case irq_storm_timer_cb 350000 rearmed_device of Inr s \<Rightarrow> s | Inl e \<Rightarrow> rearmed_device)"

text \<open>
  Two devices whose \<open>pulses_emitted\<close> lie on either side of a carry into the high word.
\<close>

definition wrap_lo_device :: ISAIrqStormState where
  "wrap_lo_device = level_device\<lparr>pulses_emitted := 0xFFFFFFFF\<rparr>"

definition wrap_hi_device :: ISAIrqStormState where
  "wrap_hi_device = level_device\<lparr>pulses_emitted := 0x100000000\<rparr>"

text \<open>
  The default device after a write of \<open>0x20000000\<close> (\<open>2 ^ 29\<close> microseconds) to
  \<^verbatim>\<open>PERIOD_US\<close>.
\<close>

definition zero_period_device :: ISAIrqStormState where
  "zero_period_device = irq_storm_write 0 edge_device IRQ_STORM_REG_PERIOD_US 0x20000000"

text \<open>
  What holds in every reachable state: the line is asserted only in level mode on an
  enabled device, the timer is armed only on an enabled device, and the level of the line
  is the one the device recorded.
\<close>

definition device_inv :: "ISAIrqStormState \<Rightarrow> bool" where
  "device_inv s \<longleftrightarrow>
     (irq_asserted s \<longrightarrow> ctrl_enabled s \<and> ctrl_level s) \<and>
     (timer_expire s \<noteq> None \<longrightarrow> ctrl_enabled s) \<and>
     line_level s = irq_asserted s"

section \<open>Basic facts\<close>

declare pulse_loop.simps [simp del]

lemmas reg_defs = IRQ_STORM_REG_CTRL_def IRQ_STORM_REG_IRQ_def IRQ_STORM_REG_BURST_def
  IRQ_STORM_REG_STATUS_def IRQ_STORM_REG_PERIOD_US_def IRQ_STORM_REG_PULSES_LO_def
  IRQ_STORM_REG_PULSES_HI_def IRQ_STORM_REG_TIMER_CB_def IRQ_STORM_REG_CFG_WRITES_def
  IRQ_STORM_REG_EN_TOGGLES_def IRQ_STORM_REG_ACK_def

lemmas ctrl_defs = IRQ_STORM_CTRL_ENABLE_def IRQ_STORM_CTRL_LEVEL_def

text \<open>The pulse loop in closed form.\<close>

lemma pulse_loop_closed:
  "pulse_loop i pulses s =
     (if i < pulses
      then s\<lparr>line_level := False, line_pulses := line_pulses s + (unat pulses - unat i)\<rparr>
      else s)"
proof (induction i pulses s rule: pulse_loop.induct)
  case (1 i pulses s)
  show ?case
  proof (cases "i < pulses")
    case True
    then have u: "unat (i + 1) = unat i + 1" by unat_arith
    from True have le: "unat i < unat pulses" by (simp add: word_less_nat_alt)
    have step: "pulse_loop i pulses s = pulse_loop (i + 1) pulses (qemu_irq_pulse s)"
      using True by (subst pulse_loop.simps) simp
    have ih: "pulse_loop (i + 1) pulses (qemu_irq_pulse s) =
       (if i + 1 < pulses
        then (qemu_irq_pulse s)\<lparr>line_level := False,
               line_pulses := line_pulses (qemu_irq_pulse s) + (unat pulses - unat (i + 1))\<rparr>
        else qemu_irq_pulse s)"
      using "1.IH" [OF True] .
    show ?thesis
    proof (cases "i + 1 < pulses")
      case T2: True
      then have "unat i + 1 < unat pulses" using u by (simp add: word_less_nat_alt)
      then have "Suc (unat pulses - Suc (unat i)) = unat pulses - unat i" by arith
      with True T2 u show ?thesis
        unfolding step ih by (simp add: qemu_irq_pulse_def)
    next
      case F2: False
      then have "unat pulses = unat i + 1" using u le by (simp add: word_less_nat_alt)
      with True F2 u show ?thesis
        unfolding step ih by (simp add: qemu_irq_pulse_def)
    qed
  next
    case False
    then show ?thesis by (subst pulse_loop.simps) simp
  qed
qed

subsection \<open>Scheduling\<close>

lemma schedule_from_now_eq:
  "irq_storm_schedule_from_now now s =
     (if ctrl_enabled s
      then s\<lparr>next_deadline_ns := now + irq_storm_period_ns s,
             timer_expire := Some (now + irq_storm_period_ns s)\<rparr>
      else s)"
  by (simp add: irq_storm_schedule_from_now_def timer_mod_def Let_def)

lemma schedule_next_disabled:
  "\<not> ctrl_enabled s \<Longrightarrow> irq_storm_schedule_next now s = Inr s"
  by (simp add: irq_storm_schedule_next_def)

lemma schedule_next_Inr:
  assumes "irq_storm_schedule_next now s = Inr s'"
  shows "s' = s\<lparr>next_deadline_ns := next_deadline_ns s', timer_expire := timer_expire s'\<rparr>"
  using assms
  by (auto simp: irq_storm_schedule_next_def timer_mod_def Let_def split: if_splits)

lemma schedule_next_enabled_armed:
  assumes "irq_storm_schedule_next now s = Inr s'" "ctrl_enabled s"
  shows "timer_expire s' = Some (next_deadline_ns s')"
  using assms
  by (auto simp: irq_storm_schedule_next_def timer_mod_def Let_def split: if_splits)

lemma schedule_next_total:
  assumes "irq_storm_period_ns s \<noteq> 0"
  shows "\<exists>s'. irq_storm_schedule_next now s = Inr s'"
  using assms by (simp add: irq_storm_schedule_next_def Let_def)


lemma schedule_next_fields:
  assumes "irq_storm_schedule_next now s = Inr s'"
  shows "control s' = control s" "period_us s' = period_us s" "burst s' = burst s"
    "timer_cb_count s' = timer_cb_count s" "pulses_emitted s' = pulses_emitted s"
    "config_writes s' = config_writes s" "enable_toggle_count s' = enable_toggle_count s"
    "irq_asserted s' = irq_asserted s" "line_level s' = line_level s"
    "line_raises s' = line_raises s" "line_lowers s' = line_lowers s"
    "line_pulses s' = line_pulses s" "iobase s' = iobase s" "iosize s' = iosize s"
    "isairq s' = isairq s" "io_mapped s' = io_mapped s" "irq_bound s' = irq_bound s"
    "timer_created s' = timer_created s"
  using assms
  by (auto simp: irq_storm_schedule_next_def timer_mod_def Let_def split: if_splits)

subsection \<open>The timer callback, case by case\<close>

lemma burst_clamp_bounds:
  "1 \<le> min (max (1 :: u32) b) IRQ_STORM_MAX_BURST \<and>
   min (max (1 :: u32) b) IRQ_STORM_MAX_BURST \<le> 100000"
  by (simp add: IRQ_STORM_MAX_BURST_def min_def max_def)

lemma burst_clamp_pos: "0 < min (max (1 :: u32) b) IRQ_STORM_MAX_BURST"
  using burst_clamp_bounds [of b] by (simp add: word_less_nat_alt word_le_nat_alt)

lemma timer_cb_disabled:
  "\<not> ctrl_enabled s \<Longrightarrow> irq_storm_timer_cb now s = Inr s"
  by (simp add: irq_storm_timer_cb_def)

lemma timer_cb_level_raise:
  assumes "ctrl_enabled s" "ctrl_level s" "\<not> irq_asserted s"
  shows "irq_storm_timer_cb now s =
     irq_storm_schedule_next now
       (s\<lparr>timer_cb_count := timer_cb_count s + 1, line_level := True,
          line_raises := line_raises s + 1, irq_asserted := True,
          pulses_emitted := pulses_emitted s + 1\<rparr>)"
  using assms by (simp add: irq_storm_timer_cb_def qemu_irq_raise_def Let_def)

lemma timer_cb_level_held:
  assumes "ctrl_enabled s" "ctrl_level s" "irq_asserted s"
  shows "irq_storm_timer_cb now s =
     irq_storm_schedule_next now (s\<lparr>timer_cb_count := timer_cb_count s + 1\<rparr>)"
  using assms by (simp add: irq_storm_timer_cb_def Let_def)

lemma timer_cb_edge:
  assumes "ctrl_enabled s" "\<not> ctrl_level s"
  shows "irq_storm_timer_cb now s =
     irq_storm_schedule_next now
       (s\<lparr>timer_cb_count := timer_cb_count s + 1, line_level := False,
          line_pulses := line_pulses s + unat (min (max (1 :: u32) (burst s)) IRQ_STORM_MAX_BURST),
          pulses_emitted :=
            pulses_emitted s + ucast (min (max (1 :: u32) (burst s)) IRQ_STORM_MAX_BURST)\<rparr>)"
  using assms burst_clamp_pos [of "burst s"]
  by (simp add: irq_storm_timer_cb_def Let_def pulse_loop_closed)

lemma period_ns_upd [simp]:
  "irq_storm_period_ns (s\<lparr>line_level := a\<rparr>) = irq_storm_period_ns s"
  "irq_storm_period_ns (s\<lparr>line_raises := b\<rparr>) = irq_storm_period_ns s"
  "irq_storm_period_ns (s\<lparr>line_pulses := c\<rparr>) = irq_storm_period_ns s"
  "irq_storm_period_ns (s\<lparr>irq_asserted := d\<rparr>) = irq_storm_period_ns s"
  "irq_storm_period_ns (s\<lparr>pulses_emitted := e\<rparr>) = irq_storm_period_ns s"
  "irq_storm_period_ns (s\<lparr>timer_cb_count := f\<rparr>) = irq_storm_period_ns s"
  "irq_storm_period_ns (s\<lparr>next_deadline_ns := g\<rparr>) = irq_storm_period_ns s"
  "irq_storm_period_ns (s\<lparr>timer_expire := h\<rparr>) = irq_storm_period_ns s"
  by (simp_all add: irq_storm_period_ns_def)

lemma timer_cb_level:
  assumes en: "ctrl_enabled s" and lv: "ctrl_level s" and p: "irq_storm_period_ns s \<noteq> 0"
  shows "\<exists>s'. irq_storm_timer_cb now s = Inr s' \<and>
           control s' = control s \<and> period_us s' = period_us s \<and>
           timer_cb_count s' = timer_cb_count s + 1 \<and>
           line_lowers s' = line_lowers s \<and> line_pulses s' = line_pulses s \<and>
           irq_asserted s' \<and>
           (if irq_asserted s
            then line_level s' = line_level s \<and> line_raises s' = line_raises s \<and>
                 pulses_emitted s' = pulses_emitted s
            else line_level s' \<and> line_raises s' = line_raises s + 1 \<and>
                 pulses_emitted s' = pulses_emitted s + 1)"
proof (cases "irq_asserted s")
  case True
  let ?m = "s\<lparr>timer_cb_count := timer_cb_count s + 1\<rparr>"
  from p obtain s' where r: "irq_storm_schedule_next now ?m = Inr s'"
    using schedule_next_total [of ?m now] by auto
  show ?thesis
    using True r timer_cb_level_held [OF en lv True, of now] schedule_next_fields [OF r]
    by simp
next
  case False
  let ?m = "s\<lparr>timer_cb_count := timer_cb_count s + 1, line_level := True,
          line_raises := line_raises s + 1, irq_asserted := True,
          pulses_emitted := pulses_emitted s + 1\<rparr>"
  from p obtain s' where r: "irq_storm_schedule_next now ?m = Inr s'"
    using schedule_next_total [of ?m now] by auto
  show ?thesis
    using False r timer_cb_level_raise [OF en lv False, of now] schedule_next_fields [OF r]
    by simp
qed

lemma period_ns_cong:
  "period_us s' = period_us s \<Longrightarrow> irq_storm_period_ns s' = irq_storm_period_ns s"
  by (simp add: irq_storm_period_ns_def)

lemma fires_level:
  assumes "ctrl_enabled s" "ctrl_level s" "irq_storm_period_ns s \<noteq> 0"
  shows "\<exists>s'. fires nows s = Inr s' \<and>
           control s' = control s \<and> period_us s' = period_us s \<and>
           timer_cb_count s' = timer_cb_count s + of_nat (length nows) \<and>
           line_lowers s' = line_lowers s \<and> line_pulses s' = line_pulses s \<and>
           (if irq_asserted s \<or> nows = []
            then irq_asserted s' = irq_asserted s \<and> line_level s' = line_level s \<and>
                 line_raises s' = line_raises s \<and> pulses_emitted s' = pulses_emitted s
            else irq_asserted s' \<and> line_level s' \<and> line_raises s' = line_raises s + 1 \<and>
                 pulses_emitted s' = pulses_emitted s + 1)"
  using assms
proof (induction nows arbitrary: s)
  case Nil
  then show ?case by simp
next
  case (Cons now nows)
  from timer_cb_level [OF Cons.prems, of now] obtain s1 where
    cb: "irq_storm_timer_cb now s = Inr s1" and
    c1: "control s1 = control s" and p1: "period_us s1 = period_us s" and
    t1: "timer_cb_count s1 = timer_cb_count s + 1" and
    l1: "line_lowers s1 = line_lowers s" "line_pulses s1 = line_pulses s" and
    a1: "irq_asserted s1" and
    r1: "if irq_asserted s
         then line_level s1 = line_level s \<and> line_raises s1 = line_raises s \<and>
              pulses_emitted s1 = pulses_emitted s
         else line_level s1 \<and> line_raises s1 = line_raises s + 1 \<and>
              pulses_emitted s1 = pulses_emitted s + 1"
    by (elim exE conjE)
  have pre: "ctrl_enabled s1" "ctrl_level s1" "irq_storm_period_ns s1 \<noteq> 0"
    using Cons.prems c1 period_ns_cong [OF p1] by simp_all
  from Cons.IH [OF pre] a1 obtain s' where
    f: "fires nows s1 = Inr s'" and
    c2: "control s' = control s1" "period_us s' = period_us s1" and
    t2: "timer_cb_count s' = timer_cb_count s1 + of_nat (length nows)" and
    l2: "line_lowers s' = line_lowers s1" "line_pulses s' = line_pulses s1" and
    r2: "irq_asserted s' = irq_asserted s1" "line_level s' = line_level s1"
        "line_raises s' = line_raises s1" "pulses_emitted s' = pulses_emitted s1"
    by auto
  have "fires (now # nows) s = Inr s'" using cb f by simp
  moreover have "timer_cb_count s' = timer_cb_count s + of_nat (length (now # nows))"
    using t1 t2 by simp
  ultimately show ?case
    using c1 p1 c2 l1 l2 r1 r2 a1 by (cases "irq_asserted s") auto
qed

lemma timer_cb_edge_fields:
  assumes en: "ctrl_enabled s" and lv: "\<not> ctrl_level s" and p: "irq_storm_period_ns s \<noteq> 0"
  shows "\<exists>s'. irq_storm_timer_cb now s = Inr s' \<and>
           control s' = control s \<and> period_us s' = period_us s \<and> burst s' = burst s \<and>
           timer_cb_count s' = timer_cb_count s + 1 \<and>
           line_pulses s' = line_pulses s + unat (min (max 1 (burst s)) IRQ_STORM_MAX_BURST) \<and>
           pulses_emitted s' =
             pulses_emitted s + ucast (min (max 1 (burst s)) IRQ_STORM_MAX_BURST) \<and>
           \<not> line_level s' \<and> line_raises s' = line_raises s \<and>
           line_lowers s' = line_lowers s \<and> irq_asserted s' = irq_asserted s"
proof -
  let ?n = "min (max 1 (burst s)) IRQ_STORM_MAX_BURST"
  let ?m = "s\<lparr>timer_cb_count := timer_cb_count s + 1, line_level := False,
          line_pulses := line_pulses s + unat ?n,
          pulses_emitted := pulses_emitted s + ucast ?n\<rparr>"
  from p obtain s' where r: "irq_storm_schedule_next now ?m = Inr s'"
    using schedule_next_total [of ?m now] by auto
  show ?thesis
    using r timer_cb_edge [OF en lv, of now] schedule_next_fields [OF r] by simp
qed

lemma burst_clamp_eq:
  "min (max (1 :: u32) b) IRQ_STORM_MAX_BURST =
     (if b = 0 then 1 else if 100000 < b then 100000 else b)"
  apply (simp add: IRQ_STORM_MAX_BURST_def min_def max_def)
  apply (auto simp: word_le_nat_alt word_less_nat_alt)
  apply unat_arith
  done

subsection \<open>The invariant of reachable states\<close>

lemma deassert_eq:
  "irq_storm_irq_deassert s =
     (if irq_asserted s
      then s\<lparr>line_level := False, line_lowers := line_lowers s + 1, irq_asserted := False\<rparr>
      else s)"
  by (simp add: irq_storm_irq_deassert_def qemu_irq_lower_def)

lemma device_inv_realize:
  assumes "irq_storm_realize now (irq_storm_instance a b c d e f g) = (None, s)"
  shows "device_inv s"
  using assms
  by (auto simp: irq_storm_realize_def irq_storm_instance_def schedule_from_now_eq
      device_inv_def Let_def ctrl_defs split: if_splits)

lemma device_inv_write_ctrl:
  assumes "device_inv s"
  shows "device_inv (irq_storm_write_ctrl now s val)"
  using assms
  by (auto simp: irq_storm_write_ctrl_def device_inv_def Let_def deassert_eq
      schedule_from_now_eq timer_del_def split: if_splits)

lemma device_inv_write:
  assumes "device_inv s"
  shows "device_inv (irq_storm_write now s addr val)"
  using assms device_inv_write_ctrl [OF assms, of now val]
  by (auto simp: irq_storm_write_def device_inv_def Let_def deassert_eq
      schedule_from_now_eq split: if_splits)

lemma device_inv_timer_cb:
  assumes inv: "device_inv s" and cb: "irq_storm_timer_cb now s = Inr s'"
  shows "device_inv s'"
proof (cases "ctrl_enabled s")
  case False
  with cb inv show ?thesis by (simp add: timer_cb_disabled)
next
  case en: True
  show ?thesis
  proof (cases "ctrl_level s")
    case lv: True
    show ?thesis
    proof (cases "irq_asserted s")
      case True
      let ?m = "s\<lparr>timer_cb_count := timer_cb_count s + 1\<rparr>"
      from cb have r: "irq_storm_schedule_next now ?m = Inr s'"
        by (simp add: timer_cb_level_held [OF en lv True])
      from schedule_next_fields [OF r] schedule_next_enabled_armed [OF r] inv en lv True
      show ?thesis by (simp add: device_inv_def)
    next
      case False
      let ?m = "s\<lparr>timer_cb_count := timer_cb_count s + 1, line_level := True,
          line_raises := line_raises s + 1, irq_asserted := True,
          pulses_emitted := pulses_emitted s + 1\<rparr>"
      from cb have r: "irq_storm_schedule_next now ?m = Inr s'"
        by (simp add: timer_cb_level_raise [OF en lv False])
      from schedule_next_fields [OF r] schedule_next_enabled_armed [OF r] inv en lv False
      show ?thesis by (simp add: device_inv_def)
    qed
  next
    case lv: False
    let ?n = "min (max 1 (burst s)) IRQ_STORM_MAX_BURST"
    let ?m = "s\<lparr>timer_cb_count := timer_cb_count s + 1, line_level := False,
          line_pulses := line_pulses s + unat ?n,
          pulses_emitted := pulses_emitted s + ucast ?n\<rparr>"
    from cb have r: "irq_storm_schedule_next now ?m = Inr s'"
      by (simp add: timer_cb_edge [OF en lv])
    from schedule_next_fields [OF r] schedule_next_enabled_armed [OF r] inv en lv
    show ?thesis by (auto simp: device_inv_def)
  qed
qed

lemma device_inv_unarm: "device_inv s \<Longrightarrow> device_inv (s\<lparr>timer_expire := None\<rparr>)"
  by (simp add: device_inv_def)

lemma timer_dispatch_Some:
  assumes "timer_dispatch now s = Some r"
  shows "\<exists>d. timer_expire s = Some d \<and> d \<le>s now \<and>
           r = irq_storm_timer_cb now (s\<lparr>timer_expire := None\<rparr>)"
  using assms by (auto simp: timer_dispatch_def split: option.splits if_splits)

lemma reachable_inv: "reachable s \<Longrightarrow> device_inv s"
proof (induction rule: reachable.induct)
  case (realized now p_iobase p_iosize p_irq p_burst p_period_us p_en p_lvl s)
  then show ?case by (rule device_inv_realize)
next
  case (written s now addr val)
  then show ?case by (simp add: device_inv_write)
next
  case (fired s now s')
  from timer_dispatch_Some [OF fired.hyps(2)]
  have "irq_storm_timer_cb now (s\<lparr>timer_expire := None\<rparr>) = Inr s'" by auto
  with device_inv_unarm [OF fired.IH] show ?case by (rule device_inv_timer_cb)
qed

lemma reachable_armed_enabled:
  "reachable s \<Longrightarrow> timer_expire s \<noteq> None \<Longrightarrow> ctrl_enabled s"
  using reachable_inv [of s] by (simp add: device_inv_def)

lemma reachable_asserted_level:
  "reachable s \<Longrightarrow> irq_asserted s \<Longrightarrow> ctrl_enabled s \<and> ctrl_level s"
  using reachable_inv [of s] by (simp add: device_inv_def)

lemma realize_level_device:
  "irq_storm_realize 0 (irq_storm_instance 0x560 0x20 5 128 100 True True) = (None, level_device)"
  by (simp add: level_device_def irq_storm_realize_def irq_storm_instance_def Let_def)

lemma realize_edge_device:
  "irq_storm_realize 0 (irq_storm_instance 0x560 0x20 5 128 100 True False) = (None, edge_device)"
  by (simp add: edge_device_def irq_storm_default_instance_def irq_storm_realize_def
      irq_storm_instance_def Let_def)

lemma reachable_level_device: "reachable level_device"
  using realize_level_device by (rule reachable.realized)

lemma reachable_edge_device: "reachable edge_device"
  using realize_edge_device by (rule reachable.realized)

lemma level_device_eq:
  "level_device = (irq_storm_instance 0x560 0x20 5 128 100 True True)
     \<lparr>io_mapped := True, timer_created := True, timer_expire := Some 100000,
      irq_bound := True, control := 3, next_deadline_ns := 100000\<rparr>"
  by (simp add: level_device_def irq_storm_realize_def irq_storm_instance_def Let_def
      schedule_from_now_eq ctrl_defs irq_storm_period_ns_def SCALE_US_def)

lemma edge_device_eq:
  "edge_device = (irq_storm_instance 0x560 0x20 5 128 100 True False)
     \<lparr>io_mapped := True, timer_created := True, timer_expire := Some 100000,
      irq_bound := True, control := 1, next_deadline_ns := 100000\<rparr>"
  by (simp add: edge_device_def irq_storm_default_instance_def irq_storm_realize_def
      irq_storm_instance_def Let_def
      schedule_from_now_eq ctrl_defs irq_storm_period_ns_def SCALE_US_def)

lemma burst5_device_eq: "burst5_device = edge_device\<lparr>burst := 5, config_writes := 1\<rparr>"
  by (simp add: burst5_device_def irq_storm_write_def reg_defs edge_device_eq
      irq_storm_instance_def)

lemma reachable_burst5_device: "reachable burst5_device"
  unfolding burst5_device_def using reachable_edge_device by (rule reachable.written)

lemma dispatch_level_device:
  "timer_dispatch 100000 level_device =
     Some (Inr (level_device\<lparr>timer_expire := Some 200000, line_level := True, line_raises := 1,
        irq_asserted := True, next_deadline_ns := 200000, pulses_emitted := 1, timer_cb_count := 1\<rparr>))"
  by (simp add: timer_dispatch_def level_device_eq irq_storm_instance_def
      irq_storm_timer_cb_def irq_storm_schedule_next_def qemu_irq_raise_def timer_mod_def
      irq_storm_period_ns_def SCALE_US_def ctrl_defs Let_def word_sle_eq)

lemma level_device_fired_eq:
  "level_device_fired =
     level_device\<lparr>timer_expire := Some 200000, line_level := True, line_raises := 1,
        irq_asserted := True, next_deadline_ns := 200000, pulses_emitted := 1, timer_cb_count := 1\<rparr>"
  by (simp add: level_device_fired_def dispatch_level_device)

lemma reachable_level_device_fired: "reachable level_device_fired"
  using reachable_level_device dispatch_level_device
  unfolding level_device_fired_eq by (rule reachable.fired)

subsection \<open>Register writes\<close>

lemma write_ack_eq:
  "irq_storm_write now s IRQ_STORM_REG_ACK val =
     (if val \<noteq> 0 then irq_storm_irq_deassert s else s)"
  by (simp add: irq_storm_write_def reg_defs)

lemma write_ctrl_control:
  "control (irq_storm_write_ctrl now s val) =
     (ucast val :: u8) AND (IRQ_STORM_CTRL_ENABLE OR IRQ_STORM_CTRL_LEVEL)"
  by (auto simp: irq_storm_write_ctrl_def Let_def deassert_eq schedule_from_now_eq
      timer_del_def)

lemma write_ctrl_config_writes:
  "config_writes (irq_storm_write_ctrl now s val) =
     config_writes s +
       (if (ucast val :: u8) AND (IRQ_STORM_CTRL_ENABLE OR IRQ_STORM_CTRL_LEVEL) \<noteq> control s
        then 1 else 0)"
  by (auto simp: irq_storm_write_ctrl_def Let_def deassert_eq schedule_from_now_eq
      timer_del_def)

lemma write_ctrl_enable_toggle_count:
  "enable_toggle_count (irq_storm_write_ctrl now s val) =
     enable_toggle_count s +
       (if ((ucast val :: u8) AND (IRQ_STORM_CTRL_ENABLE OR IRQ_STORM_CTRL_LEVEL))
              AND IRQ_STORM_CTRL_ENABLE \<noteq> 0 \<longleftrightarrow> ctrl_enabled s
        then 0 else 1)"
  by (auto simp: irq_storm_write_ctrl_def Let_def deassert_eq schedule_from_now_eq
      timer_del_def)

lemma write_ctrl_pulses [simp]:
  "pulses_emitted (irq_storm_write_ctrl now s val) = pulses_emitted s"
  "timer_cb_count (irq_storm_write_ctrl now s val) = timer_cb_count s"
  by (auto simp: irq_storm_write_ctrl_def Let_def deassert_eq schedule_from_now_eq
      timer_del_def)

lemma mask_enable:
  "(v AND (IRQ_STORM_CTRL_ENABLE OR IRQ_STORM_CTRL_LEVEL)) AND IRQ_STORM_CTRL_ENABLE =
     (v :: u8) AND IRQ_STORM_CTRL_ENABLE"
  by (simp add: ctrl_defs and.assoc)

lemma mask_level:
  "(v AND (IRQ_STORM_CTRL_ENABLE OR IRQ_STORM_CTRL_LEVEL)) AND IRQ_STORM_CTRL_LEVEL =
     (v :: u8) AND IRQ_STORM_CTRL_LEVEL"
  by (simp add: ctrl_defs and.assoc)

lemma write_ctrl_disable_deasserts:
  assumes "(ucast val :: u8) AND IRQ_STORM_CTRL_ENABLE = 0"
  shows "\<not> irq_asserted (irq_storm_write_ctrl now s val)"
proof -
  have "\<not> ctrl_enabled (irq_storm_write_ctrl now s val)"
    using assms by (simp add: write_ctrl_control mask_enable)
  then show ?thesis
    by (auto simp: irq_storm_write_ctrl_def Let_def deassert_eq schedule_from_now_eq
      timer_del_def split: if_splits)
qed

section \<open>Offsets outside the register table\<close>

text \<open>
  Claim C9. For every offset outside the defined register set, a read returns 0 and a
  write leaves the whole device state unchanged.
\<close>

theorem unknown_offsets_ignored:
  assumes "addr \<notin> defined_offsets"
  shows "irq_storm_read s addr = 0 \<and> irq_storm_write now s addr val = s"
  using assms by (simp add: defined_offsets_def irq_storm_read_def irq_storm_write_def)

theorem unknown_offsets_ignored_witness:
  "(0x20 :: u64) \<notin> defined_offsets \<and> irq_storm_read edge_device 0x20 = 0 \<and>
   irq_storm_write 7 edge_device 0x20 0xff = edge_device"
proof -
  have h: "(0x20 :: u64) \<notin> defined_offsets" by (simp add: defined_offsets_def reg_defs)
  show ?thesis using h unknown_offsets_ignored [OF h, of edge_device 7 "0xff"] by simp
qed

section \<open>Edge mode: burst accounting\<close>

text \<open>
  Claim C4. On an enabled device in edge mode (LEVEL clear) whose period in nanoseconds is
  not zero, one fire calls \<^verbatim>\<open>qemu_irq_pulse\<close> exactly \<open>clamp(burst, 1, 100000)\<close> times
  and adds exactly that number to \<open>pulses_emitted\<close>; it counts as one fire, leaves the line
  low, and on a reachable device \<open>irq_asserted\<close> is false afterwards. With BURST = 5 one
  fire adds exactly 5 (the witness).
\<close>

theorem edge_mode_burst_accounting:
  assumes "ctrl_enabled s" "\<not> ctrl_level s" "irq_storm_period_ns s \<noteq> 0"
  shows "\<exists>s'. irq_storm_timer_cb now s = Inr s' \<and>
           line_pulses s' = line_pulses s +
             unat (if burst s = 0 then 1 else if 100000 < burst s then 100000 else burst s) \<and>
           pulses_emitted s' = pulses_emitted s +
             ucast (if burst s = 0 then 1 else if 100000 < burst s then 100000 else burst s) \<and>
           timer_cb_count s' = timer_cb_count s + 1 \<and>
           \<not> line_level s' \<and> line_raises s' = line_raises s \<and>
           (reachable s \<longrightarrow> \<not> irq_asserted s')"
proof -
  from timer_cb_edge_fields [OF assms, of now] obtain s' where
    cb: "irq_storm_timer_cb now s = Inr s'" and
    f: "timer_cb_count s' = timer_cb_count s + 1"
       "line_pulses s' = line_pulses s + unat (min (max 1 (burst s)) IRQ_STORM_MAX_BURST)"
       "pulses_emitted s' =
          pulses_emitted s + ucast (min (max 1 (burst s)) IRQ_STORM_MAX_BURST)"
       "\<not> line_level s'" "line_raises s' = line_raises s"
       "irq_asserted s' = irq_asserted s"
    by (elim exE conjE)
  have "reachable s \<longrightarrow> \<not> irq_asserted s"
    using reachable_asserted_level [of s] assms(2) by blast
  with cb f show ?thesis
    unfolding burst_clamp_eq by auto
qed

theorem edge_mode_burst_accounting_witness:
  "ctrl_enabled burst5_device \<and> \<not> ctrl_level burst5_device \<and>
   irq_storm_period_ns burst5_device \<noteq> 0 \<and> burst burst5_device = 5 \<and>
   reachable burst5_device \<and>
   (\<exists>s'. irq_storm_timer_cb 100000 burst5_device = Inr s' \<and>
      line_pulses s' = 5 \<and> pulses_emitted s' = 5 \<and> timer_cb_count s' = 1 \<and>
      \<not> line_level s' \<and> line_raises s' = 0 \<and> \<not> irq_asserted s')"
proof -
  have dev: "control burst5_device = 1" "period_us burst5_device = 100"
    "burst burst5_device = 5" "line_pulses burst5_device = 0"
    "pulses_emitted burst5_device = 0" "timer_cb_count burst5_device = 0"
    "line_raises burst5_device = 0"
    by (simp_all add: burst5_device_eq edge_device_eq irq_storm_instance_def)
  have h1: "ctrl_enabled burst5_device" and h2: "\<not> ctrl_level burst5_device"
    by (simp_all add: dev ctrl_defs)
  have h3: "irq_storm_period_ns burst5_device \<noteq> 0"
    by (simp add: irq_storm_period_ns_def dev SCALE_US_def)
  from edge_mode_burst_accounting [OF h1 h2 h3, of 100000]
  show ?thesis using h1 h2 h3 dev reachable_burst5_device by auto
qed

section \<open>The ACK register\<close>

text \<open>
  Claim C6. A write of a non-zero value to ACK (offset 0x1C) while the line is asserted
  lowers the line and clears \<open>irq_asserted\<close>, and changes nothing else; a write of zero to
  ACK changes nothing; an ACK write while the line is not asserted changes nothing; and on
  a reachable device in edge mode an ACK write changes nothing.
\<close>

theorem ack_write:
  "(val \<noteq> 0 \<and> irq_asserted s \<longrightarrow>
      irq_storm_write now s IRQ_STORM_REG_ACK val =
        s\<lparr>line_level := False, line_lowers := line_lowers s + 1, irq_asserted := False\<rparr>) \<and>
   irq_storm_write now s IRQ_STORM_REG_ACK 0 = s \<and>
   (\<not> irq_asserted s \<longrightarrow> irq_storm_write now s IRQ_STORM_REG_ACK val = s) \<and>
   (reachable s \<and> \<not> ctrl_level s \<longrightarrow> irq_storm_write now s IRQ_STORM_REG_ACK val = s)"
proof -
  have "reachable s \<and> \<not> ctrl_level s \<longrightarrow> \<not> irq_asserted s"
    using reachable_asserted_level [of s] by blast
  then show ?thesis by (auto simp: write_ack_eq deassert_eq)
qed

theorem ack_write_witness:
  "(1 :: u64) \<noteq> 0 \<and> irq_asserted level_device_fired \<and>
   irq_storm_write 150000 level_device_fired IRQ_STORM_REG_ACK 1 =
     level_device_fired\<lparr>line_level := False, line_lowers := 1, irq_asserted := False\<rparr> \<and>
   irq_storm_write 150000 level_device_fired IRQ_STORM_REG_ACK 0 = level_device_fired \<and>
   \<not> irq_asserted level_device \<and>
   irq_storm_write 50000 level_device IRQ_STORM_REG_ACK 1 = level_device \<and>
   reachable edge_device \<and> \<not> ctrl_level edge_device \<and>
   irq_storm_write 50000 edge_device IRQ_STORM_REG_ACK 1 = edge_device"
proof -
  have a: "irq_asserted level_device_fired" "line_lowers level_device_fired = 0"
    by (simp_all add: level_device_fired_eq level_device_eq irq_storm_instance_def)
  have b: "\<not> irq_asserted level_device"
    by (simp add: level_device_eq irq_storm_instance_def)
  have c: "\<not> ctrl_level edge_device"
    by (simp add: edge_device_eq ctrl_defs)
  from ack_write [of 1 level_device_fired 150000] a
  have 1: "irq_storm_write 150000 level_device_fired IRQ_STORM_REG_ACK 1 =
     level_device_fired\<lparr>line_level := False, line_lowers := 1, irq_asserted := False\<rparr>"
    by simp
  from ack_write [of 0 level_device_fired 150000]
  have 2: "irq_storm_write 150000 level_device_fired IRQ_STORM_REG_ACK 0 = level_device_fired"
    by simp
  from ack_write [of 1 level_device 50000] b
  have 3: "irq_storm_write 50000 level_device IRQ_STORM_REG_ACK 1 = level_device"
    by simp
  from ack_write [of 1 edge_device 50000] c reachable_edge_device
  have 4: "irq_storm_write 50000 edge_device IRQ_STORM_REG_ACK 1 = edge_device"
    by simp
  from 1 2 3 4 a b c reachable_edge_device show ?thesis by simp
qed

section \<open>Debounced configuration accounting\<close>

lemma write_ctrl_eq:
  "irq_storm_write now s IRQ_STORM_REG_CTRL val = irq_storm_write_ctrl now s val"
  by (simp add: irq_storm_write_def)

lemma write_burst_eq:
  "irq_storm_write now s IRQ_STORM_REG_BURST val =
     (if (ucast val :: u32) \<noteq> burst s
      then s\<lparr>burst := ucast val, config_writes := config_writes s + 1\<rparr> else s)"
  by (simp add: irq_storm_write_def reg_defs)

lemma write_period_eq:
  "irq_storm_write now s IRQ_STORM_REG_PERIOD_US val =
     (if (ucast val :: u32) \<noteq> period_us s
      then (let s1 = s\<lparr>period_us := ucast val, config_writes := config_writes s + 1\<rparr>
            in if ctrl_enabled s1 then irq_storm_schedule_from_now now s1 else s1)
      else s)"
  by (simp add: irq_storm_write_def reg_defs)

text \<open>
  Claim C5. A CTRL write adds 1 to \<open>config_writes\<close> if the written value, masked to
  ENABLE and LEVEL, differs from the stored control value, and nothing otherwise; so a
  second write of the same value adds nothing. A CTRL write adds 1 to
  \<open>enable_toggle_count\<close> if the ENABLE bit of the written value differs from the stored
  one, and nothing otherwise. A BURST or \<^verbatim>\<open>PERIOD_US\<close> write adds 1 to \<open>config_writes\<close> if
  the written 32-bit value differs from the stored one, and nothing otherwise, and never
  changes \<open>enable_toggle_count\<close>.
\<close>

theorem debounced_config_accounting:
  "config_writes (irq_storm_write now s IRQ_STORM_REG_CTRL val) =
     config_writes s +
       (if (ucast val :: u8) AND (IRQ_STORM_CTRL_ENABLE OR IRQ_STORM_CTRL_LEVEL) \<noteq> control s
        then 1 else 0) \<and>
   config_writes (irq_storm_write now2
       (irq_storm_write now s IRQ_STORM_REG_CTRL val) IRQ_STORM_REG_CTRL val) =
     config_writes (irq_storm_write now s IRQ_STORM_REG_CTRL val) \<and>
   enable_toggle_count (irq_storm_write now s IRQ_STORM_REG_CTRL val) =
     enable_toggle_count s +
       (if ((ucast val :: u8) AND IRQ_STORM_CTRL_ENABLE \<noteq> 0) = ctrl_enabled s
        then 0 else 1) \<and>
   config_writes (irq_storm_write now s IRQ_STORM_REG_BURST val) =
     config_writes s + (if (ucast val :: u32) \<noteq> burst s then 1 else 0) \<and>
   config_writes (irq_storm_write now s IRQ_STORM_REG_PERIOD_US val) =
     config_writes s + (if (ucast val :: u32) \<noteq> period_us s then 1 else 0) \<and>
   enable_toggle_count (irq_storm_write now s IRQ_STORM_REG_BURST val) =
     enable_toggle_count s \<and>
   enable_toggle_count (irq_storm_write now s IRQ_STORM_REG_PERIOD_US val) =
     enable_toggle_count s"
proof (intro conjI)
  show "config_writes (irq_storm_write now s IRQ_STORM_REG_CTRL val) =
     config_writes s +
       (if (ucast val :: u8) AND (IRQ_STORM_CTRL_ENABLE OR IRQ_STORM_CTRL_LEVEL) \<noteq> control s
        then 1 else 0)"
    by (simp only: write_ctrl_eq write_ctrl_config_writes)
  show "config_writes (irq_storm_write now2
       (irq_storm_write now s IRQ_STORM_REG_CTRL val) IRQ_STORM_REG_CTRL val) =
     config_writes (irq_storm_write now s IRQ_STORM_REG_CTRL val)"
    by (simp add: write_ctrl_eq write_ctrl_config_writes write_ctrl_control)
  show "enable_toggle_count (irq_storm_write now s IRQ_STORM_REG_CTRL val) =
     enable_toggle_count s +
       (if ((ucast val :: u8) AND IRQ_STORM_CTRL_ENABLE \<noteq> 0) = ctrl_enabled s
        then 0 else 1)"
    by (simp only: write_ctrl_eq write_ctrl_enable_toggle_count mask_enable)
  show "config_writes (irq_storm_write now s IRQ_STORM_REG_BURST val) =
     config_writes s + (if (ucast val :: u32) \<noteq> burst s then 1 else 0)"
    by (simp add: write_burst_eq)
  show "config_writes (irq_storm_write now s IRQ_STORM_REG_PERIOD_US val) =
     config_writes s + (if (ucast val :: u32) \<noteq> period_us s then 1 else 0)"
    by (simp add: write_period_eq schedule_from_now_eq Let_def)
  show "enable_toggle_count (irq_storm_write now s IRQ_STORM_REG_BURST val) =
     enable_toggle_count s"
    by (simp add: write_burst_eq)
  show "enable_toggle_count (irq_storm_write now s IRQ_STORM_REG_PERIOD_US val) =
     enable_toggle_count s"
    by (simp add: write_period_eq schedule_from_now_eq Let_def)
qed

theorem debounced_config_accounting_witness:
  "config_writes (irq_storm_write 10 edge_device IRQ_STORM_REG_CTRL 3) = 1 \<and>
   config_writes (irq_storm_write 20
       (irq_storm_write 10 edge_device IRQ_STORM_REG_CTRL 3) IRQ_STORM_REG_CTRL 3) = 1 \<and>
   enable_toggle_count (irq_storm_write 10 edge_device IRQ_STORM_REG_CTRL 3) = 0 \<and>
   enable_toggle_count (irq_storm_write 10 edge_device IRQ_STORM_REG_CTRL 2) = 1 \<and>
   config_writes (irq_storm_write 10 edge_device IRQ_STORM_REG_BURST 128) = 0 \<and>
   config_writes (irq_storm_write 10 edge_device IRQ_STORM_REG_BURST 5) = 1 \<and>
   config_writes (irq_storm_write 10 edge_device IRQ_STORM_REG_PERIOD_US 100) = 0 \<and>
   config_writes (irq_storm_write 10 edge_device IRQ_STORM_REG_PERIOD_US 50) = 1"
proof -
  have dev: "control edge_device = 1" "burst edge_device = 128" "period_us edge_device = 100"
    "config_writes edge_device = 0" "enable_toggle_count edge_device = 0"
    by (simp_all add: edge_device_eq irq_storm_instance_def)
  show ?thesis
    using debounced_config_accounting [of 10 edge_device 3 20]
      debounced_config_accounting [of 10 edge_device 2 20]
      debounced_config_accounting [of 10 edge_device 128 20]
      debounced_config_accounting [of 10 edge_device 5 20]
      debounced_config_accounting [of 10 edge_device 100 20]
      debounced_config_accounting [of 10 edge_device 50 20]
    by (simp add: dev ctrl_defs)
qed

section \<open>Construction errors\<close>

lemma realize_fails_iff:
  "fst (irq_storm_realize now s) \<noteq> None \<longleftrightarrow> 15 < isairq s \<or> iosize s < 0x20"
  by (simp add: irq_storm_realize_def Let_def)

lemma realize_failure_unchanged:
  "fst (irq_storm_realize now s) \<noteq> None \<Longrightarrow> snd (irq_storm_realize now s) = s"
  by (simp add: irq_storm_realize_def Let_def split: if_splits)

lemma realize_success:
  assumes "\<not> 15 < isairq s" "\<not> iosize s < 0x20" "control s = 0"
  shows "irq_bound (snd (irq_storm_realize now s))"
    "timer_created (snd (irq_storm_realize now s))"
    "io_mapped (snd (irq_storm_realize now s))"
    "ctrl_level (snd (irq_storm_realize now s)) \<longleftrightarrow> level_triggered s"
    "ctrl_enabled (snd (irq_storm_realize now s)) \<longleftrightarrow> start_enabled s"
    "timer_expire (snd (irq_storm_realize now s)) \<noteq> None \<longleftrightarrow> start_enabled s"
  using assms
  by (auto simp: irq_storm_realize_def Let_def schedule_from_now_eq ctrl_defs)

text \<open>
  Claim C8. \<^verbatim>\<open>irq_storm_realize\<close> reports an error if and only if the line number is
  greater than 15 or the I/O window is smaller than 0x20. When it does, it leaves the
  object exactly as it was: no line bound, no timer created, no region mapped. Otherwise,
  on a fresh object (control 0), it binds the line, creates the timer, maps the region,
  sets LEVEL if and only if \<open>level_triggered\<close> and ENABLE if and only if
  \<open>start_enabled\<close>, and arms the timer if and only if \<open>start_enabled\<close>.
\<close>

theorem realize_config_errors:
  "(fst (irq_storm_realize now s) \<noteq> None \<longleftrightarrow> 15 < isairq s \<or> iosize s < 0x20) \<and>
   (fst (irq_storm_realize now s) \<noteq> None \<longrightarrow> snd (irq_storm_realize now s) = s) \<and>
   (fst (irq_storm_realize now s) = None \<and> control s = 0 \<longrightarrow>
      irq_bound (snd (irq_storm_realize now s)) \<and>
      timer_created (snd (irq_storm_realize now s)) \<and>
      io_mapped (snd (irq_storm_realize now s)) \<and>
      (ctrl_level (snd (irq_storm_realize now s)) \<longleftrightarrow> level_triggered s) \<and>
      (ctrl_enabled (snd (irq_storm_realize now s)) \<longleftrightarrow> start_enabled s) \<and>
      (timer_expire (snd (irq_storm_realize now s)) \<noteq> None \<longleftrightarrow> start_enabled s))"
proof (intro conjI impI)
  show "fst (irq_storm_realize now s) \<noteq> None \<longleftrightarrow> 15 < isairq s \<or> iosize s < 0x20"
    by (rule realize_fails_iff)
next
  assume "fst (irq_storm_realize now s) \<noteq> None"
  then show "snd (irq_storm_realize now s) = s" by (rule realize_failure_unchanged)
next
  assume a: "fst (irq_storm_realize now s) = None \<and> control s = 0"
  then have b: "\<not> 15 < isairq s" "\<not> iosize s < 0x20" "control s = 0"
    using realize_fails_iff [of now s] by auto
  from realize_success [OF b, of now]
  show "irq_bound (snd (irq_storm_realize now s))"
    "timer_created (snd (irq_storm_realize now s))"
    "io_mapped (snd (irq_storm_realize now s))"
    "ctrl_level (snd (irq_storm_realize now s)) \<longleftrightarrow> level_triggered s"
    "ctrl_enabled (snd (irq_storm_realize now s)) \<longleftrightarrow> start_enabled s"
    "timer_expire (snd (irq_storm_realize now s)) \<noteq> None \<longleftrightarrow> start_enabled s"
    by simp_all
qed

theorem realize_config_errors_witness:
  "fst (irq_storm_realize 0 (irq_storm_instance 0x560 0x20 16 128 100 True True)) \<noteq> None \<and>
   snd (irq_storm_realize 0 (irq_storm_instance 0x560 0x20 16 128 100 True True)) =
     irq_storm_instance 0x560 0x20 16 128 100 True True \<and>
   fst (irq_storm_realize 0 (irq_storm_instance 0x560 0x1f 5 128 100 True True)) \<noteq> None \<and>
   snd (irq_storm_realize 0 (irq_storm_instance 0x560 0x1f 5 128 100 True True)) =
     irq_storm_instance 0x560 0x1f 5 128 100 True True \<and>
   \<not> irq_bound (irq_storm_instance 0x560 0x1f 5 128 100 True True) \<and>
   \<not> timer_created (irq_storm_instance 0x560 0x1f 5 128 100 True True) \<and>
   \<not> io_mapped (irq_storm_instance 0x560 0x1f 5 128 100 True True) \<and>
   fst (irq_storm_realize 0 (irq_storm_instance 0x560 0x20 15 128 100 False True)) = None \<and>
   irq_bound (snd (irq_storm_realize 0 (irq_storm_instance 0x560 0x20 15 128 100 False True))) \<and>
   timer_created (snd (irq_storm_realize 0 (irq_storm_instance 0x560 0x20 15 128 100 False True))) \<and>
   io_mapped (snd (irq_storm_realize 0 (irq_storm_instance 0x560 0x20 15 128 100 False True))) \<and>
   ctrl_level (snd (irq_storm_realize 0 (irq_storm_instance 0x560 0x20 15 128 100 False True))) \<and>
   \<not> ctrl_enabled (snd (irq_storm_realize 0 (irq_storm_instance 0x560 0x20 15 128 100 False True))) \<and>
   timer_expire (snd (irq_storm_realize 0 (irq_storm_instance 0x560 0x20 15 128 100 False True))) = None"
proof -
  let ?a = "irq_storm_instance 0x560 0x20 16 128 100 True True"
  let ?b = "irq_storm_instance 0x560 0x1f 5 128 100 True True"
  let ?c = "irq_storm_instance 0x560 0x20 15 128 100 False True"
  have fa: "isairq ?a = 16" and fb: "isairq ?b = 5" "iosize ?b = 0x1f"
    "\<not> irq_bound ?b" "\<not> timer_created ?b" "\<not> io_mapped ?b"
    and fc: "isairq ?c = 15" "iosize ?c = 0x20" "control ?c = 0" "level_triggered ?c"
    "\<not> start_enabled ?c"
    by (simp_all add: irq_storm_instance_def)
  from realize_config_errors [of 0 ?a] fa
  have 1: "fst (irq_storm_realize 0 ?a) \<noteq> None \<and> snd (irq_storm_realize 0 ?a) = ?a"
    by simp
  from realize_config_errors [of 0 ?b] fb
  have 2: "fst (irq_storm_realize 0 ?b) \<noteq> None \<and> snd (irq_storm_realize 0 ?b) = ?b"
    by simp
  from realize_config_errors [of 0 ?c] fc
  have 3: "fst (irq_storm_realize 0 ?c) = None \<and>
      irq_bound (snd (irq_storm_realize 0 ?c)) \<and>
      timer_created (snd (irq_storm_realize 0 ?c)) \<and>
      io_mapped (snd (irq_storm_realize 0 ?c)) \<and>
      ctrl_level (snd (irq_storm_realize 0 ?c)) \<and>
      \<not> ctrl_enabled (snd (irq_storm_realize 0 ?c)) \<and>
      timer_expire (snd (irq_storm_realize 0 ?c)) = None"
    by simp
  from 1 2 3 fb show ?thesis by blast
qed

section \<open>A disabled device never asserts the line\<close>

lemma write_keeps_enable_inv:
  assumes "\<not> ctrl_enabled s \<longrightarrow> \<not> irq_asserted s"
    and "\<not> ctrl_enabled (irq_storm_write now s addr val)"
  shows "\<not> irq_asserted (irq_storm_write now s addr val)"
proof (cases "addr = IRQ_STORM_REG_CTRL")
  case True
  with assms(2) show ?thesis
    by (auto simp: irq_storm_write_def irq_storm_write_ctrl_def Let_def deassert_eq
        schedule_from_now_eq timer_del_def split: if_splits)
next
  case False
  with assms show ?thesis
    by (auto simp: irq_storm_write_def Let_def deassert_eq schedule_from_now_eq
        split: if_splits)
qed

lemma timer_cb_enabled_result:
  assumes "ctrl_enabled s" "irq_storm_timer_cb now s = Inr s'"
  shows "ctrl_enabled s'"
proof -
  have "control s' = control s"
  proof (cases "ctrl_level s")
    case lv: True
    show ?thesis
    proof (cases "irq_asserted s")
      case True
      from assms(2) schedule_next_fields(1) [of now _ s'] show ?thesis
        by (simp add: timer_cb_level_held [OF assms(1) lv True])
    next
      case False
      from assms(2) schedule_next_fields(1) [of now _ s'] show ?thesis
        by (simp add: timer_cb_level_raise [OF assms(1) lv False])
    qed
  next
    case lv: False
    from assms(2) schedule_next_fields(1) [of now _ s'] show ?thesis
      by (simp add: timer_cb_edge [OF assms(1) lv])
  qed
  with assms(1) show ?thesis by simp
qed

lemma write_ctrl_disable:
  assumes "(ucast val :: u8) AND IRQ_STORM_CTRL_ENABLE = 0"
  shows "\<not> ctrl_enabled (irq_storm_write_ctrl now s val)"
    "timer_expire (irq_storm_write_ctrl now s val) = None"
proof -
  show d: "\<not> ctrl_enabled (irq_storm_write_ctrl now s val)"
    using assms by (simp add: write_ctrl_control mask_enable)
  then show "timer_expire (irq_storm_write_ctrl now s val) = None"
    by (auto simp: irq_storm_write_ctrl_def Let_def deassert_eq schedule_from_now_eq
      timer_del_def split: if_splits)
qed

lemma disabled_device_eq:
  "disabled_device = level_device_fired\<lparr>timer_expire := None, line_level := False,
     line_lowers := 1, control := 2, irq_asserted := False, config_writes := 1,
     enable_toggle_count := 1\<rparr>"
  by (simp add: disabled_device_def write_ctrl_eq irq_storm_write_ctrl_def Let_def
      level_device_fired_eq level_device_eq irq_storm_instance_def deassert_eq timer_del_def
      ctrl_defs)

lemma reachable_disabled_device: "reachable disabled_device"
  unfolding disabled_device_def using reachable_level_device_fired by (rule reachable.written)

text \<open>
  Claim C10. In every reachable state, ENABLE clear implies \<open>irq_asserted\<close> false. It
  holds after construction; every register write preserves it, and a CTRL write whose
  value has ENABLE clear leaves the device disabled, deasserted and with no timer pending;
  every execution of the timer callback preserves it, and on a disabled device the
  callback returns the state unchanged.
\<close>

theorem disabled_never_asserted:
  "(reachable s \<and> \<not> ctrl_enabled s \<longrightarrow> \<not> irq_asserted s) \<and>
   (irq_storm_realize now (irq_storm_instance p_iobase p_iosize p_irq p_burst p_period_us p_en p_lvl)
      = (None, s0) \<longrightarrow> \<not> irq_asserted s0) \<and>
   ((\<not> ctrl_enabled s \<longrightarrow> \<not> irq_asserted s) \<and> \<not> ctrl_enabled (irq_storm_write now s addr val)
      \<longrightarrow> \<not> irq_asserted (irq_storm_write now s addr val)) \<and>
   ((ucast val :: u8) AND IRQ_STORM_CTRL_ENABLE = 0 \<longrightarrow>
      \<not> ctrl_enabled (irq_storm_write now s IRQ_STORM_REG_CTRL val) \<and>
      \<not> irq_asserted (irq_storm_write now s IRQ_STORM_REG_CTRL val) \<and>
      timer_expire (irq_storm_write now s IRQ_STORM_REG_CTRL val) = None) \<and>
   ((\<not> ctrl_enabled s \<longrightarrow> \<not> irq_asserted s) \<and> irq_storm_timer_cb now s = Inr s' \<and>
      \<not> ctrl_enabled s' \<longrightarrow> \<not> irq_asserted s') \<and>
   (\<not> ctrl_enabled s \<longrightarrow> irq_storm_timer_cb now s = Inr s)"
proof (intro conjI impI)
  assume "reachable s \<and> \<not> ctrl_enabled s"
  then show "\<not> irq_asserted s" using reachable_asserted_level [of s] by blast
next
  assume "irq_storm_realize now
      (irq_storm_instance p_iobase p_iosize p_irq p_burst p_period_us p_en p_lvl) = (None, s0)"
  then show "\<not> irq_asserted s0"
    by (auto simp: irq_storm_realize_def irq_storm_instance_def schedule_from_now_eq Let_def
        split: if_splits)
next
  assume "(\<not> ctrl_enabled s \<longrightarrow> \<not> irq_asserted s) \<and>
      \<not> ctrl_enabled (irq_storm_write now s addr val)"
  then show "\<not> irq_asserted (irq_storm_write now s addr val)"
    using write_keeps_enable_inv [of s now addr val] by blast
next
  assume a: "(ucast val :: u8) AND IRQ_STORM_CTRL_ENABLE = 0"
  from write_ctrl_disable [OF a, of now s] write_ctrl_disable_deasserts [OF a, of now s]
  show "\<not> ctrl_enabled (irq_storm_write now s IRQ_STORM_REG_CTRL val)"
    "\<not> irq_asserted (irq_storm_write now s IRQ_STORM_REG_CTRL val)"
    "timer_expire (irq_storm_write now s IRQ_STORM_REG_CTRL val) = None"
    by (simp_all add: write_ctrl_eq)
next
  assume a: "(\<not> ctrl_enabled s \<longrightarrow> \<not> irq_asserted s) \<and> irq_storm_timer_cb now s = Inr s' \<and>
      \<not> ctrl_enabled s'"
  show "\<not> irq_asserted s'"
  proof (cases "ctrl_enabled s")
    case True
    with a timer_cb_enabled_result [of s now s'] show ?thesis by blast
  next
    case False
    with a show ?thesis by (auto simp: timer_cb_disabled)
  qed
next
  assume "\<not> ctrl_enabled s"
  then show "irq_storm_timer_cb now s = Inr s" by (rule timer_cb_disabled)
qed

theorem disabled_never_asserted_witness:
  "reachable disabled_device \<and> \<not> ctrl_enabled disabled_device \<and>
   \<not> irq_asserted disabled_device \<and>
   (ucast (2 :: u64) :: u8) AND IRQ_STORM_CTRL_ENABLE = 0 \<and>
   irq_asserted level_device_fired \<and>
   \<not> irq_asserted (irq_storm_write 150000 level_device_fired IRQ_STORM_REG_CTRL 2) \<and>
   timer_expire (irq_storm_write 150000 level_device_fired IRQ_STORM_REG_CTRL 2) = None \<and>
   irq_storm_timer_cb 200000 disabled_device = Inr disabled_device"
proof -
  have d: "\<not> ctrl_enabled disabled_device"
    by (simp add: disabled_device_eq ctrl_defs)
  have v: "(ucast (2 :: u64) :: u8) AND IRQ_STORM_CTRL_ENABLE = 0"
    by (simp add: ctrl_defs)
  have f: "irq_asserted level_device_fired"
    by (simp add: level_device_fired_eq)
  from disabled_never_asserted [of disabled_device 200000 _ _ _ _ _ _ _ _ _ 2 _]
    disabled_never_asserted [of level_device_fired 150000 _ _ _ _ _ _ _ _ _ 2 _]
    reachable_disabled_device d v f
  show ?thesis by simp
qed

section \<open>The counters never decrease\<close>

lemma u64_le_add:
  assumes "unat (x :: u64) + n < 2 ^ 64" "unat y \<le> n"
  shows "x \<le> x + y"
  using assms by (simp add: no_olen_add_nat)

lemma unat_ucast_32_64: "unat (ucast (n :: u32) :: u64) = unat n"
proof -
  have "unat n < 2 ^ 32" using unsigned_less [of n] by simp
  then have "unat n < 2 ^ 64" by simp
  then show ?thesis by (simp add: unsigned_ucast_eq take_bit_nat_eq_self)
qed

lemma write_counters:
  "pulses_emitted (irq_storm_write now s addr val) = pulses_emitted s"
  "timer_cb_count (irq_storm_write now s addr val) = timer_cb_count s"
  "config_writes (irq_storm_write now s addr val) = config_writes s \<or>
   config_writes (irq_storm_write now s addr val) = config_writes s + 1"
  "enable_toggle_count (irq_storm_write now s addr val) = enable_toggle_count s \<or>
   enable_toggle_count (irq_storm_write now s addr val) = enable_toggle_count s + 1"
proof -
  have c: "addr = IRQ_STORM_REG_CTRL \<Longrightarrow>
      irq_storm_write now s addr val = irq_storm_write_ctrl now s val"
    by (simp add: irq_storm_write_def)
  have o: "addr \<noteq> IRQ_STORM_REG_CTRL \<Longrightarrow>
      pulses_emitted (irq_storm_write now s addr val) = pulses_emitted s \<and>
      timer_cb_count (irq_storm_write now s addr val) = timer_cb_count s \<and>
      (config_writes (irq_storm_write now s addr val) = config_writes s \<or>
       config_writes (irq_storm_write now s addr val) = config_writes s + 1) \<and>
      enable_toggle_count (irq_storm_write now s addr val) = enable_toggle_count s"
    by (simp add: irq_storm_write_def deassert_eq schedule_from_now_eq Let_def)
  show "pulses_emitted (irq_storm_write now s addr val) = pulses_emitted s"
    using c o by (cases "addr = IRQ_STORM_REG_CTRL") simp_all
  show "timer_cb_count (irq_storm_write now s addr val) = timer_cb_count s"
    using c o by (cases "addr = IRQ_STORM_REG_CTRL") simp_all
  show "config_writes (irq_storm_write now s addr val) = config_writes s \<or>
     config_writes (irq_storm_write now s addr val) = config_writes s + 1"
    using c o by (cases "addr = IRQ_STORM_REG_CTRL") (simp_all add: write_ctrl_config_writes)
  show "enable_toggle_count (irq_storm_write now s addr val) = enable_toggle_count s \<or>
     enable_toggle_count (irq_storm_write now s addr val) = enable_toggle_count s + 1"
    using c o
    by (cases "addr = IRQ_STORM_REG_CTRL") (simp_all add: write_ctrl_enable_toggle_count)
qed

lemma timer_cb_counters:
  assumes "irq_storm_timer_cb now s = Inr s'"
  shows "config_writes s' = config_writes s \<and>
    enable_toggle_count s' = enable_toggle_count s \<and>
    (timer_cb_count s' = timer_cb_count s \<or> timer_cb_count s' = timer_cb_count s + 1) \<and>
    (\<exists>k. unat k \<le> 100000 \<and> pulses_emitted s' = pulses_emitted s + k)"
proof -
  have "\<exists>m k. irq_storm_schedule_next now m = Inr s' \<and>
      config_writes m = config_writes s \<and>
      enable_toggle_count m = enable_toggle_count s \<and>
      (timer_cb_count m = timer_cb_count s \<or> timer_cb_count m = timer_cb_count s + 1) \<and>
      unat k \<le> 100000 \<and> pulses_emitted m = pulses_emitted s + k"
  proof (cases "ctrl_enabled s")
    case False
    with assms have "irq_storm_schedule_next now s = Inr s'"
      by (simp add: timer_cb_disabled schedule_next_disabled)
    then have "irq_storm_schedule_next now s = Inr s' \<and>
      config_writes s = config_writes s \<and>
      enable_toggle_count s = enable_toggle_count s \<and>
      (timer_cb_count s = timer_cb_count s \<or> timer_cb_count s = timer_cb_count s + 1) \<and>
      unat (0 :: u64) \<le> 100000 \<and> pulses_emitted s = pulses_emitted s + 0"
      by simp
    then show ?thesis by (intro exI [where x = s] exI [where x = "0 :: u64"])
  next
    case en: True
    show ?thesis
    proof (cases "ctrl_level s")
      case lv: True
      show ?thesis
      proof (cases "irq_asserted s")
        case True
        let ?m = "s\<lparr>timer_cb_count := timer_cb_count s + 1\<rparr>"
        from assms have "irq_storm_schedule_next now ?m = Inr s'"
          by (simp add: timer_cb_level_held [OF en lv True])
        then have "irq_storm_schedule_next now ?m = Inr s' \<and>
          config_writes ?m = config_writes s \<and>
          enable_toggle_count ?m = enable_toggle_count s \<and>
          (timer_cb_count ?m = timer_cb_count s \<or> timer_cb_count ?m = timer_cb_count s + 1) \<and>
          unat (0 :: u64) \<le> 100000 \<and> pulses_emitted ?m = pulses_emitted s + 0"
          by simp
        then show ?thesis by (intro exI [where x = ?m] exI [where x = "0 :: u64"])
      next
        case False
        let ?m = "s\<lparr>timer_cb_count := timer_cb_count s + 1, line_level := True,
          line_raises := line_raises s + 1, irq_asserted := True,
          pulses_emitted := pulses_emitted s + 1\<rparr>"
        from assms have "irq_storm_schedule_next now ?m = Inr s'"
          by (simp add: timer_cb_level_raise [OF en lv False])
        then have "irq_storm_schedule_next now ?m = Inr s' \<and>
          config_writes ?m = config_writes s \<and>
          enable_toggle_count ?m = enable_toggle_count s \<and>
          (timer_cb_count ?m = timer_cb_count s \<or> timer_cb_count ?m = timer_cb_count s + 1) \<and>
          unat (1 :: u64) \<le> 100000 \<and> pulses_emitted ?m = pulses_emitted s + 1"
          by simp
        then show ?thesis by (intro exI [where x = ?m] exI [where x = "1 :: u64"])
      qed
    next
      case lv: False
      let ?n = "min (max 1 (burst s)) IRQ_STORM_MAX_BURST"
      let ?m = "s\<lparr>timer_cb_count := timer_cb_count s + 1, line_level := False,
          line_pulses := line_pulses s + unat ?n,
          pulses_emitted := pulses_emitted s + ucast ?n\<rparr>"
      have "unat ?n \<le> 100000"
        using burst_clamp_bounds [of "burst s"] by (simp add: word_le_nat_alt)
      then have n: "unat (ucast ?n :: u64) \<le> 100000"
        by (simp only: unat_ucast_32_64)
      from assms have "irq_storm_schedule_next now ?m = Inr s'"
        by (simp add: timer_cb_edge [OF en lv])
      with n have "irq_storm_schedule_next now ?m = Inr s' \<and>
          config_writes ?m = config_writes s \<and>
          enable_toggle_count ?m = enable_toggle_count s \<and>
          (timer_cb_count ?m = timer_cb_count s \<or> timer_cb_count ?m = timer_cb_count s + 1) \<and>
          unat (ucast ?n :: u64) \<le> 100000 \<and> pulses_emitted ?m = pulses_emitted s + ucast ?n"
        by simp
      then show ?thesis by (intro exI [where x = ?m] exI [where x = "ucast ?n :: u64"])
    qed
  qed
  then obtain m k where r: "irq_storm_schedule_next now m = Inr s'"
    and m: "config_writes m = config_writes s"
      "enable_toggle_count m = enable_toggle_count s"
      "timer_cb_count m = timer_cb_count s \<or> timer_cb_count m = timer_cb_count s + 1"
    and k: "unat k \<le> 100000" "pulses_emitted m = pulses_emitted s + k"
    by (elim exE conjE)
  from k schedule_next_fields(5) [OF r]
  have "unat k \<le> 100000 \<and> pulses_emitted s' = pulses_emitted s + k" by simp
  then have "\<exists>k. unat k \<le> 100000 \<and> pulses_emitted s' = pulses_emitted s + k"
    by (rule exI [where x = k])
  with m schedule_next_fields(4,6,7) [OF r] show ?thesis by simp
qed

lemma timer_cb_level_device:
  "irq_storm_timer_cb 100000 level_device = Inr level_device_fired"
  by (simp add: level_device_fired_eq level_device_eq irq_storm_instance_def
      irq_storm_timer_cb_def irq_storm_schedule_next_def qemu_irq_raise_def timer_mod_def
      irq_storm_period_ns_def SCALE_US_def ctrl_defs Let_def word_sle_eq)

text \<open>
  Claim C1. In every state whose counters are below the wrap-around of their 64 bits, and
  so in every state a device reaches in practice, no operation (a register read, a
  register write to any offset with any value, an execution of the timer callback)
  decreases \<open>pulses_emitted\<close>, \<open>timer_cb_count\<close>, \<open>config_writes\<close> or
  \<open>enable_toggle_count\<close>; in particular none of them resets a counter.
\<close>

theorem counters_monotone:
  assumes "counters_below_wrap s" "step now op s = Inr s'"
  shows "pulses_emitted s \<le> pulses_emitted s' \<and> timer_cb_count s \<le> timer_cb_count s' \<and>
         config_writes s \<le> config_writes s' \<and>
         enable_toggle_count s \<le> enable_toggle_count s'"
proof -
  from assms(1) have w:
    "unat (pulses_emitted s) + 100000 < 2 ^ 64" "unat (timer_cb_count s) + 1 < 2 ^ 64"
    "unat (config_writes s) + 1 < 2 ^ 64" "unat (enable_toggle_count s) + 1 < 2 ^ 64"
    by (simp_all add: counters_below_wrap_def)
  have one: "unat (1 :: u64) \<le> 1" by simp
  note inc = u64_le_add [OF w(2) one] u64_le_add [OF w(3) one] u64_le_add [OF w(4) one]
  show ?thesis
  proof (cases op)
    case (Read addr)
    with assms(2) show ?thesis by simp
  next
    case (Write addr val)
    with assms(2) have s': "s' = irq_storm_write now s addr val" by simp
    from write_counters [of now s addr val] inc show ?thesis
      unfolding s' by auto
  next
    case TimerFire
    with assms(2) have cb: "irq_storm_timer_cb now s = Inr s'" by simp
    from timer_cb_counters [OF cb] obtain k where
      c: "config_writes s' = config_writes s"
         "enable_toggle_count s' = enable_toggle_count s"
         "timer_cb_count s' = timer_cb_count s \<or> timer_cb_count s' = timer_cb_count s + 1"
      and k: "unat k \<le> 100000" "pulses_emitted s' = pulses_emitted s + k"
      by (elim exE conjE)
    have "pulses_emitted s \<le> pulses_emitted s'"
      unfolding k(2) using w(1) k(1) by (rule u64_le_add)
    with c inc show ?thesis by auto
  qed
qed

theorem counters_monotone_witness:
  "counters_below_wrap level_device \<and>
   step 100000 TimerFire level_device = Inr level_device_fired \<and>
   pulses_emitted level_device = 0 \<and> pulses_emitted level_device_fired = 1 \<and>
   pulses_emitted level_device \<le> pulses_emitted level_device_fired \<and>
   timer_cb_count level_device \<le> timer_cb_count level_device_fired \<and>
   config_writes level_device \<le> config_writes level_device_fired \<and>
   enable_toggle_count level_device \<le> enable_toggle_count level_device_fired"
proof -
  have h1: "counters_below_wrap level_device"
    by (simp add: counters_below_wrap_def level_device_eq irq_storm_instance_def)
  have h2: "step 100000 TimerFire level_device = Inr level_device_fired"
    by (simp add: timer_cb_level_device)
  have v: "pulses_emitted level_device = 0" "pulses_emitted level_device_fired = 1"
    by (simp_all add: level_device_fired_eq level_device_eq irq_storm_instance_def)
  from counters_monotone [OF h1 h2] h1 h2 v show ?thesis by simp
qed

text \<open>Without the bound the counter does wrap: a fire at the top of the range.\<close>

lemma pulses_emitted_wraps:
  "irq_storm_timer_cb 100000 (level_device\<lparr>pulses_emitted := - 1\<rparr>) =
     Inr (level_device_fired\<lparr>pulses_emitted := 0\<rparr>)"
  by (simp add: level_device_fired_eq level_device_eq irq_storm_instance_def
      irq_storm_timer_cb_def irq_storm_schedule_next_def qemu_irq_raise_def timer_mod_def
      irq_storm_period_ns_def SCALE_US_def ctrl_defs Let_def word_sle_eq)

section \<open>The stable 64-bit read\<close>

text \<open>What the two port reads return, for a device at the consumer's I/O base.\<close>

lemma io_in32_hi:
  assumes "iobase s = 0x560"
  shows "io_in32 s REG_PULSES_HI = ucast (drop_bit 32 (pulses_emitted s))"
  using assms
  by (simp add: io_in32_def REG_PULSES_HI_def STORM_IOBASE_def irq_storm_read_def reg_defs
      ucast_up_ucast_id is_up)

lemma io_in32_lo:
  assumes "iobase s = 0x560"
  shows "io_in32 s REG_PULSES_LO = ucast (pulses_emitted s)"
  using assms
  by (simp add: io_in32_def REG_PULSES_LO_def STORM_IOBASE_def irq_storm_read_def reg_defs
      ucast_up_ucast_id is_up)

lemma unat_hi32: "unat (ucast (drop_bit 32 (x :: u64)) :: u32) = unat x div 2 ^ 32"
proof -
  have "unat x < 2 ^ 64" using unsigned_less [of x] by simp
  then have "unat x div 2 ^ 32 < 2 ^ 32" by simp
  then show ?thesis
    by (simp add: unsigned_ucast_eq drop_bit_eq_div unat_div take_bit_nat_eq_self)
qed

lemma hi32_mono:
  assumes "(a :: u64) \<le> b"
  shows "(ucast (drop_bit 32 a) :: u32) \<le> ucast (drop_bit 32 b)"
  using assms by (simp add: word_le_nat_alt unat_hi32 div_le_mono)

lemma join_halves:
  "push_bit 32 (ucast (ucast (drop_bit 32 b) :: u32) :: u64) OR ucast (ucast b :: u32) = (b :: u64)"
  by (rule bit_word_eqI) (auto simp: bit_simps)

lemma stable_pair:
  assumes "(a :: u64) \<le> b" "b \<le> c"
    and "(ucast (drop_bit 32 a) :: u32) = ucast (drop_bit 32 c)"
  shows "push_bit 32 (ucast (ucast (drop_bit 32 c) :: u32) :: u64) OR ucast (ucast b :: u32) = b"
proof -
  have "(ucast (drop_bit 32 b) :: u32) = ucast (drop_bit 32 c)"
    using hi32_mono [OF assms(1)] hi32_mono [OF assms(2)] assms(3) by simp
  then show ?thesis using join_halves [of b] by simp
qed

text \<open>
  The loop, round by round: it returns in the first round whose two HI samples agree, with
  that round's samples, and it does return when there is such a round.
\<close>

lemma nth_round:
  "(s1 # s2 # s3 # rest) ! (3 * Suc j) = rest ! (3 * j)"
  "(s1 # s2 # s3 # rest) ! (3 * Suc j + 1) = rest ! (3 * j + 1)"
  "(s1 # s2 # s3 # rest) ! (3 * Suc j + 2) = rest ! (3 * j + 2)"
  by (simp_all add: numeral_3_eq_3)

lemma read_stable_accepts:
  assumes "read_u64_lohi_stable lo_port hi_port tr = Some v"
  shows "\<exists>k. 3 * k + 2 < length tr \<and>
           (\<forall>j<k. io_in32 (tr ! (3 * j)) hi_port \<noteq> io_in32 (tr ! (3 * j + 2)) hi_port) \<and>
           io_in32 (tr ! (3 * k)) hi_port = io_in32 (tr ! (3 * k + 2)) hi_port \<and>
           v = push_bit 32 (ucast (io_in32 (tr ! (3 * k + 2)) hi_port) :: u64)
                 OR ucast (io_in32 (tr ! (3 * k + 1)) lo_port)"
  using assms
proof (induction lo_port hi_port tr rule: read_u64_lohi_stable.induct)
  case (1 lo_port hi_port s1 s2 s3 rest)
  let ?tr = "s1 # s2 # s3 # rest"
  show ?case
  proof (cases "io_in32 s1 hi_port = io_in32 s3 hi_port")
    case True
    with "1.prems" have "v = push_bit 32 (ucast (io_in32 s3 hi_port) :: u64)
        OR ucast (io_in32 s2 lo_port)"
      by (simp add: Let_def)
    with True have "3 * 0 + 2 < length ?tr \<and>
           (\<forall>j<0. io_in32 (?tr ! (3 * j)) hi_port \<noteq> io_in32 (?tr ! (3 * j + 2)) hi_port) \<and>
           io_in32 (?tr ! (3 * 0)) hi_port = io_in32 (?tr ! (3 * 0 + 2)) hi_port \<and>
           v = push_bit 32 (ucast (io_in32 (?tr ! (3 * 0 + 2)) hi_port) :: u64)
                 OR ucast (io_in32 (?tr ! (3 * 0 + 1)) lo_port)"
      by simp
    then show ?thesis by (rule exI [where x = 0])
  next
    case False
    with "1.prems" have r: "read_u64_lohi_stable lo_port hi_port rest = Some v"
      by (simp add: Let_def)
    from "1.IH" [OF refl refl refl _ r] False obtain k where
      k: "3 * k + 2 < length rest"
        "\<forall>j<k. io_in32 (rest ! (3 * j)) hi_port \<noteq> io_in32 (rest ! (3 * j + 2)) hi_port"
        "io_in32 (rest ! (3 * k)) hi_port = io_in32 (rest ! (3 * k + 2)) hi_port"
        "v = push_bit 32 (ucast (io_in32 (rest ! (3 * k + 2)) hi_port) :: u64)
                 OR ucast (io_in32 (rest ! (3 * k + 1)) lo_port)"
      by auto
    have d: "\<forall>j<Suc k. io_in32 (?tr ! (3 * j)) hi_port \<noteq> io_in32 (?tr ! (3 * j + 2)) hi_port"
    proof (intro allI impI)
      fix j assume "j < Suc k"
      show "io_in32 (?tr ! (3 * j)) hi_port \<noteq> io_in32 (?tr ! (3 * j + 2)) hi_port"
      proof (cases j)
        case 0
        with False show ?thesis by simp
      next
        case (Suc i)
        with \<open>j < Suc k\<close> have "i < k" by simp
        with k(2) have "io_in32 (rest ! (3 * i)) hi_port \<noteq> io_in32 (rest ! (3 * i + 2)) hi_port"
          by simp
        then show ?thesis unfolding Suc nth_round .
      qed
    qed
    have l: "3 * Suc k + 2 < length ?tr" using k(1) by simp
    have e:
      "io_in32 (?tr ! (3 * Suc k)) hi_port = io_in32 (?tr ! (3 * Suc k + 2)) hi_port"
      "v = push_bit 32 (ucast (io_in32 (?tr ! (3 * Suc k + 2)) hi_port) :: u64)
                 OR ucast (io_in32 (?tr ! (3 * Suc k + 1)) lo_port)"
      unfolding nth_round by (rule k(3), rule k(4))
    from l d e have "3 * Suc k + 2 < length ?tr \<and>
           (\<forall>j<Suc k. io_in32 (?tr ! (3 * j)) hi_port \<noteq> io_in32 (?tr ! (3 * j + 2)) hi_port) \<and>
           io_in32 (?tr ! (3 * Suc k)) hi_port = io_in32 (?tr ! (3 * Suc k + 2)) hi_port \<and>
           v = push_bit 32 (ucast (io_in32 (?tr ! (3 * Suc k + 2)) hi_port) :: u64)
                 OR ucast (io_in32 (?tr ! (3 * Suc k + 1)) lo_port)"
      by (intro conjI)
    then show ?thesis by (rule exI [where x = "Suc k"])
  qed
qed simp_all

lemma read_stable_returns:
  assumes "3 * k + 2 < length tr"
    and "io_in32 (tr ! (3 * k)) hi_port = io_in32 (tr ! (3 * k + 2)) hi_port"
  shows "read_u64_lohi_stable lo_port hi_port tr \<noteq> None"
  using assms
proof (induction lo_port hi_port tr arbitrary: k rule: read_u64_lohi_stable.induct)
  case (1 lo_port hi_port s1 s2 s3 rest)
  show ?case
  proof (cases "io_in32 s1 hi_port = io_in32 s3 hi_port")
    case True
    then show ?thesis by (simp add: Let_def)
  next
    case False
    with "1.prems"(2) obtain i where i: "k = Suc i" by (cases k) auto
    from "1.prems"(1) have a: "3 * i + 2 < length rest"
      unfolding i by simp
    from "1.prems"(2)
    have b: "io_in32 (rest ! (3 * i)) hi_port = io_in32 (rest ! (3 * i + 2)) hi_port"
      unfolding i nth_round .
    note a b
    from "1.IH" [OF refl refl refl _ this] False show ?thesis by (simp add: Let_def)
  qed
qed simp_all

text \<open>Fires keep the counter monotonic as long as it does not wrap.\<close>

lemma fires_pulses_mono:
  assumes "fires nows s = Inr s'"
    and "unat (pulses_emitted s) + 100000 * length nows < 2 ^ 64"
  shows "pulses_emitted s \<le> pulses_emitted s'"
  using assms
proof (induction nows arbitrary: s)
  case Nil
  then show ?case by simp
next
  case (Cons now nows)
  from Cons.prems(1) obtain s1 where
    cb: "irq_storm_timer_cb now s = Inr s1" and f: "fires nows s1 = Inr s'"
    by (cases "irq_storm_timer_cb now s") simp_all
  from timer_cb_counters [OF cb] obtain k where
    k: "unat k \<le> 100000" "pulses_emitted s1 = pulses_emitted s + k"
    by (elim exE conjE)
  from Cons.prems(2) have b: "unat (pulses_emitted s) + 100000 < 2 ^ 64" by simp
  have le: "pulses_emitted s \<le> pulses_emitted s1"
    unfolding k(2) using b k(1) by (rule u64_le_add)
  have "unat (pulses_emitted s1) = unat (pulses_emitted s) + unat k"
    unfolding k(2) using b k(1) by (simp add: unat_add_lem [THEN iffD1])
  with Cons.prems(2) k(1)
  have "unat (pulses_emitted s1) + 100000 * length nows < 2 ^ 64" by simp
  from Cons.IH [OF f this] le show ?case by simp
qed

text \<open>
  Claim C7. The list gives the device states at the successive port reads of the loop
  (the device may fire between any two reads). In each round the loop samples HI, then
  LO, then HI; it retries while the two HI samples differ and returns in the first round
  \<open>k\<close> in which they agree, the accepted HI sample in the high word and that round's LO
  sample in the low word; and it does return if some round has equal HI samples. When the
  counter is monotonic over the reads, the value returned is the value \<open>pulses_emitted\<close>
  had at the LO read of the accepted round: a value the device really held, never a torn
  one.
\<close>

theorem stable_read_never_torn:
  assumes mono: "sorted (map pulses_emitted tr)"
    and base: "\<forall>s \<in> set tr. iobase s = 0x560"
  shows "(\<forall>v. read_u64_lohi_stable REG_PULSES_LO REG_PULSES_HI tr = Some v \<longrightarrow>
            (\<exists>k. 3 * k + 2 < length tr \<and>
               (\<forall>j<k. io_in32 (tr ! (3 * j)) REG_PULSES_HI \<noteq>
                        io_in32 (tr ! (3 * j + 2)) REG_PULSES_HI) \<and>
               io_in32 (tr ! (3 * k)) REG_PULSES_HI = io_in32 (tr ! (3 * k + 2)) REG_PULSES_HI \<and>
               v = push_bit 32 (ucast (io_in32 (tr ! (3 * k + 2)) REG_PULSES_HI) :: u64)
                     OR ucast (io_in32 (tr ! (3 * k + 1)) REG_PULSES_LO) \<and>
               v = pulses_emitted (tr ! (3 * k + 1)))) \<and>
         (\<forall>k. 3 * k + 2 < length tr \<and>
              io_in32 (tr ! (3 * k)) REG_PULSES_HI = io_in32 (tr ! (3 * k + 2)) REG_PULSES_HI \<longrightarrow>
              read_u64_lohi_stable REG_PULSES_LO REG_PULSES_HI tr \<noteq> None)"
proof (intro conjI allI impI)
  fix v
  assume "read_u64_lohi_stable REG_PULSES_LO REG_PULSES_HI tr = Some v"
  from read_stable_accepts [OF this] obtain k where
    k: "3 * k + 2 < length tr"
    and d: "\<forall>j<k. io_in32 (tr ! (3 * j)) REG_PULSES_HI \<noteq>
                   io_in32 (tr ! (3 * j + 2)) REG_PULSES_HI"
    and e: "io_in32 (tr ! (3 * k)) REG_PULSES_HI = io_in32 (tr ! (3 * k + 2)) REG_PULSES_HI"
    and v: "v = push_bit 32 (ucast (io_in32 (tr ! (3 * k + 2)) REG_PULSES_HI) :: u64)
                  OR ucast (io_in32 (tr ! (3 * k + 1)) REG_PULSES_LO)"
    by (elim exE conjE)
  let ?a = "tr ! (3 * k)" and ?b = "tr ! (3 * k + 1)" and ?c = "tr ! (3 * k + 2)"
  from k base have b: "iobase ?a = 0x560" "iobase ?b = 0x560" "iobase ?c = 0x560"
    by simp_all
  from k have len: "3 * k + 2 < length (map pulses_emitted tr)" by simp
  have "map pulses_emitted tr ! (3 * k) \<le> map pulses_emitted tr ! (3 * k + 1)"
    using mono len by (intro sorted_nth_mono) simp_all
  moreover have "map pulses_emitted tr ! (3 * k + 1) \<le> map pulses_emitted tr ! (3 * k + 2)"
    using mono len by (intro sorted_nth_mono) simp_all
  ultimately have le: "pulses_emitted ?a \<le> pulses_emitted ?b"
    "pulses_emitted ?b \<le> pulses_emitted ?c"
    using k by simp_all
  from e have hi: "(ucast (drop_bit 32 (pulses_emitted ?a)) :: u32) =
      ucast (drop_bit 32 (pulses_emitted ?c))"
    by (simp only: io_in32_hi [OF b(1)] io_in32_hi [OF b(3)])
  have "v = pulses_emitted ?b"
    unfolding v io_in32_hi [OF b(3)] io_in32_lo [OF b(2)]
    using stable_pair [OF le hi] by simp
  with k d e v
  show "\<exists>k. 3 * k + 2 < length tr \<and>
               (\<forall>j<k. io_in32 (tr ! (3 * j)) REG_PULSES_HI \<noteq>
                        io_in32 (tr ! (3 * j + 2)) REG_PULSES_HI) \<and>
               io_in32 (tr ! (3 * k)) REG_PULSES_HI = io_in32 (tr ! (3 * k + 2)) REG_PULSES_HI \<and>
               v = push_bit 32 (ucast (io_in32 (tr ! (3 * k + 2)) REG_PULSES_HI) :: u64)
                     OR ucast (io_in32 (tr ! (3 * k + 1)) REG_PULSES_LO) \<and>
               v = pulses_emitted (tr ! (3 * k + 1))"
    by (intro exI [of _ k] conjI)
next
  fix k
  assume "3 * k + 2 < length tr \<and>
      io_in32 (tr ! (3 * k)) REG_PULSES_HI = io_in32 (tr ! (3 * k + 2)) REG_PULSES_HI"
  then show "read_u64_lohi_stable REG_PULSES_LO REG_PULSES_HI tr \<noteq> None"
    by (elim conjE) (rule read_stable_returns)
qed

theorem stable_read_never_torn_witness:
  "pulses_emitted wrap_lo_device = 0xFFFFFFFF \<and> pulses_emitted wrap_hi_device = 0x100000000 \<and>
   io_in32 wrap_lo_device REG_PULSES_HI = 0 \<and> io_in32 wrap_lo_device REG_PULSES_LO = 0xFFFFFFFF \<and>
   io_in32 wrap_hi_device REG_PULSES_HI = 1 \<and> io_in32 wrap_hi_device REG_PULSES_LO = 0 \<and>
   read_u64_lohi_stable REG_PULSES_LO REG_PULSES_HI
     [wrap_lo_device, wrap_lo_device, wrap_hi_device,
      wrap_hi_device, wrap_hi_device, wrap_hi_device] = Some 0x100000000"
proof -
  let ?tr = "[wrap_lo_device, wrap_lo_device, wrap_hi_device,
      wrap_hi_device, wrap_hi_device, wrap_hi_device]"
  have p: "pulses_emitted wrap_lo_device = 0xFFFFFFFF"
    "pulses_emitted wrap_hi_device = 0x100000000"
    by (simp_all add: wrap_lo_device_def wrap_hi_device_def)
  have b: "iobase wrap_lo_device = 0x560" "iobase wrap_hi_device = 0x560"
    by (simp_all add: wrap_lo_device_def wrap_hi_device_def level_device_eq
        irq_storm_instance_def)
  have h1: "sorted (map pulses_emitted ?tr)" by (simp add: p)
  have h2: "\<forall>s \<in> set ?tr. iobase s = 0x560" by (simp add: b)
  have r: "io_in32 wrap_lo_device REG_PULSES_HI = 0"
    "io_in32 wrap_lo_device REG_PULSES_LO = 0xFFFFFFFF"
    "io_in32 wrap_hi_device REG_PULSES_HI = 1" "io_in32 wrap_hi_device REG_PULSES_LO = 0"
    by (simp_all add: io_in32_hi [OF b(1)] io_in32_lo [OF b(1)] io_in32_hi [OF b(2)]
        io_in32_lo [OF b(2)] p drop_bit_eq_div)
  have "read_u64_lohi_stable REG_PULSES_LO REG_PULSES_HI ?tr = Some 0x100000000"
    using stable_read_never_torn [OF h1 h2] by (simp add: r Let_def)
  with p r show ?thesis by simp
qed

section \<open>Rescheduling with drift correction\<close>

text \<open>Integer facts about the catch-up step, and the range of the period.\<close>

lemma div_shift:
  fixes a p :: int
  assumes "0 < p"
  shows "(a - p) div p + 1 = a div p"
  using div_add_self2 [of p "a - p"] assms by simp

lemma catch_up_bounds:
  fixes x p :: int
  assumes "0 < p"
  shows "x < (x div p + 1) * p" "(x div p + 1) * p \<le> x + p"
proof -
  have m: "0 \<le> x mod p" "x mod p < p" using assms by simp_all
  have e: "(x div p + 1) * p = x - x mod p + p"
    by (simp add: algebra_simps minus_mod_eq_mult_div)
  from m show "x < (x div p + 1) * p" unfolding e by simp
  from m show "(x div p + 1) * p \<le> x + p" unfolding e by simp
qed

lemma sint_small:
  assumes "uint (w :: u64) < 2 ^ 63"
  shows "sint w = uint w"
proof -
  have "- (2 ^ 63) \<le> uint w" by (rule order_trans [of _ 0]) simp_all
  from signed_take_bit_int_eq_self [OF this assms] show ?thesis
    by (simp add: sint_uint)
qed

lemma period_ns_bound: "uint (irq_storm_period_ns s) < 2 ^ 32"
proof -
  have "uint (max 1 (period_us s) * SCALE_US) < 2 ^ 32"
    using uint_lt2p [of "max 1 (period_us s) * SCALE_US"] by simp
  then show ?thesis by (simp add: irq_storm_period_ns_def uint_up_ucast is_up)
qed

lemma div_le_self_int:
  fixes x p :: int
  assumes "0 < p" "0 \<le> x"
  shows "0 \<le> x div p" "x div p \<le> x"
proof -
  show q: "0 \<le> x div p" using assms by (simp add: pos_imp_zdiv_nonneg_iff)
  have "x div p * 1 \<le> x div p * p"
    using q assms(1) by (intro mult_left_mono) simp_all
  moreover have "x div p * p + x mod p = x" by simp
  moreover have "0 \<le> x mod p" using assms(1) by simp
  ultimately show "x div p \<le> x" by linarith
qed

text \<open>
  \<^verbatim>\<open>irq_storm_schedule_next\<close> for a period that is not zero and clock values below
  \<open>2 ^ 62\<close> nanoseconds, where no 64-bit operation wraps and the signed comparison is
  the one on the unsigned values.
\<close>

lemma schedule_next_drift:
  assumes en: "ctrl_enabled s" and p0: "irq_storm_period_ns s \<noteq> 0"
    and d: "uint (next_deadline_ns s) < 2 ^ 62" and n: "uint now < 2 ^ 62"
  shows "\<exists>s'. irq_storm_schedule_next now s = Inr s' \<and>
           timer_expire s' = Some (next_deadline_ns s') \<and>
           uint (next_deadline_ns s') =
             uint (next_deadline_ns s) + uint (irq_storm_period_ns s) *
               (if uint (next_deadline_ns s) + uint (irq_storm_period_ns s) \<le> uint now
                then (uint now - uint (next_deadline_ns s)) div uint (irq_storm_period_ns s) + 1
                else 1) \<and>
           uint now < uint (next_deadline_ns s')"
proof -
  let ?P = "irq_storm_period_ns s" and ?d = "next_deadline_ns s"
  let ?d1 = "?d + ?P"
  have "uint ?P \<noteq> 0" using p0 by (simp add: uint_0_iff)
  moreover have "0 \<le> uint ?P" by simp
  ultimately have P1: "0 < uint ?P" by linarith
  note P = P1 period_ns_bound [of s]
  have d0: "0 \<le> uint ?d" "0 \<le> uint now" by simp_all
  have "uint ?d + uint ?P < 2 ^ 64" using d P(2) by simp
  then have d1: "uint ?d1 = uint ?d + uint ?P"
    by (simp add: uint_add_lem [THEN iffD1])
  have d1b: "uint ?d1 < 2 ^ 63" unfolding d1 using d P(2) by simp
  have nb: "uint now < 2 ^ 63" using n by simp
  have sle: "?d1 \<le>s now \<longleftrightarrow> uint ?d + uint ?P \<le> uint now"
    by (simp add: word_sle_eq sint_small [OF d1b] sint_small [OF nb] d1)
  show ?thesis
  proof (cases "uint ?d + uint ?P \<le> uint now")
    case False
    then have "irq_storm_schedule_next now s =
        Inr (s\<lparr>timer_expire := Some ?d1, next_deadline_ns := ?d1\<rparr>)"
      using en sle by (simp add: irq_storm_schedule_next_def timer_mod_def Let_def)
    with False d1 show ?thesis by simp
  next
    case True
    let ?x = "now - ?d1"
    let ?missed = "?x div ?P + 1"
    let ?d2 = "?d1 + ?missed * ?P"
    from True have le: "uint ?d1 \<le> uint now" by (simp add: d1)
    then have x: "uint ?x = uint now - uint ?d1"
      by (simp add: uint_sub_lem [THEN iffD1])
    have xb0: "0 \<le> uint ?x" by simp
    have "uint ?x \<le> uint now" unfolding x d1 using uint_ge_0 [of ?d] P(1) by linarith
    with n have xb1: "uint ?x < 2 ^ 62" by linarith
    note xb = xb0 xb1
    have q: "uint (?x div ?P) = uint ?x div uint ?P" by (rule uint_div)
    note qb = div_le_self_int [OF P(1) xb0]
    have "uint (?x div ?P) + uint (1 :: u64) < 2 ^ 64" using q qb xb by simp
    then have m: "uint ?missed = uint ?x div uint ?P + 1"
      using q by (simp add: uint_add_lem [THEN iffD1])
    from catch_up_bounds [OF P(1), of "uint ?x"]
    have cb: "uint ?x < (uint ?x div uint ?P + 1) * uint ?P"
      "(uint ?x div uint ?P + 1) * uint ?P \<le> uint ?x + uint ?P" .
    have "uint ?missed * uint ?P < 2 ^ 64" unfolding m using cb(2) xb P(2) by simp
    then have mp: "uint (?missed * ?P) = (uint ?x div uint ?P + 1) * uint ?P"
      using m by (simp add: uint_mult_lem [THEN iffD1])
    have "uint ?d1 + uint (?missed * ?P) < 2 ^ 64"
      unfolding mp using cb(2) xb P(2) d1b by simp
    then have d2: "uint ?d2 = uint ?d1 + (uint ?x div uint ?P + 1) * uint ?P"
      using mp by (simp add: uint_add_lem [THEN iffD1])
    have r: "irq_storm_schedule_next now s =
        Inr (s\<lparr>timer_expire := Some ?d2, next_deadline_ns := ?d2\<rparr>)"
      using en sle True p0
      by (simp add: irq_storm_schedule_next_def timer_mod_def Let_def)
    have k: "uint ?x div uint ?P + 1 = (uint now - uint ?d) div uint ?P"
      using div_shift [OF P(1), of "uint now - uint ?d"] by (simp add: x d1 algebra_simps)
    have v: "uint ?d2 = uint ?d + uint ?P * ((uint now - uint ?d) div uint ?P + 1)"
      unfolding d2 k d1 by (simp add: algebra_simps)
    have gt: "uint now < uint ?d2"
      unfolding d2 using cb(1) x by simp
    from r v gt True show ?thesis by simp
  qed
qed

lemma timer_cb_mid:
  assumes en: "ctrl_enabled s"
  shows "\<exists>m. irq_storm_timer_cb now s = irq_storm_schedule_next now m \<and>
           control m = control s \<and> period_us m = period_us s \<and>
           next_deadline_ns m = next_deadline_ns s \<and>
           timer_cb_count m = timer_cb_count s + 1"
proof (cases "ctrl_level s")
  case lv: True
  show ?thesis
  proof (cases "irq_asserted s")
    case True
    let ?m = "s\<lparr>timer_cb_count := timer_cb_count s + 1\<rparr>"
    have f: "irq_storm_timer_cb now s = irq_storm_schedule_next now ?m \<and>
           control ?m = control s \<and> period_us ?m = period_us s \<and>
           next_deadline_ns ?m = next_deadline_ns s \<and>
           timer_cb_count ?m = timer_cb_count s + 1"
      by (simp add: timer_cb_level_held [OF en lv True])
    show ?thesis by (rule exI [where x = ?m]) (rule f)
  next
    case False
    let ?m = "s\<lparr>timer_cb_count := timer_cb_count s + 1, line_level := True,
          line_raises := line_raises s + 1, irq_asserted := True,
          pulses_emitted := pulses_emitted s + 1\<rparr>"
    have f: "irq_storm_timer_cb now s = irq_storm_schedule_next now ?m \<and>
           control ?m = control s \<and> period_us ?m = period_us s \<and>
           next_deadline_ns ?m = next_deadline_ns s \<and>
           timer_cb_count ?m = timer_cb_count s + 1"
      by (simp add: timer_cb_level_raise [OF en lv False])
    show ?thesis by (rule exI [where x = ?m]) (rule f)
  qed
next
  case lv: False
  let ?n = "min (max 1 (burst s)) IRQ_STORM_MAX_BURST"
  let ?m = "s\<lparr>timer_cb_count := timer_cb_count s + 1, line_level := False,
          line_pulses := line_pulses s + unat ?n,
          pulses_emitted := pulses_emitted s + ucast ?n\<rparr>"
  have f: "irq_storm_timer_cb now s = irq_storm_schedule_next now ?m \<and>
           control ?m = control s \<and> period_us ?m = period_us s \<and>
           next_deadline_ns ?m = next_deadline_ns s \<and>
           timer_cb_count ?m = timer_cb_count s + 1"
    by (simp add: timer_cb_edge [OF en lv])
  show ?thesis by (rule exI [where x = ?m]) (rule f)
qed

text \<open>
  The drift correction of one fire, for a period that is not zero and clock values below
  \<open>2 ^ 62\<close> nanoseconds: the fire is counted once, and the new deadline is the old one
  plus one period, or, when that is not in the future, the old one plus the number of
  whole periods that takes it past the current time, in one step.
\<close>

lemma timer_cb_drift:
  assumes en: "ctrl_enabled s" and p0: "irq_storm_period_ns s \<noteq> 0"
    and d: "uint (next_deadline_ns s) < 2 ^ 62" and n: "uint now < 2 ^ 62"
  shows "\<exists>s'. irq_storm_timer_cb now s = Inr s' \<and>
           timer_cb_count s' = timer_cb_count s + 1 \<and>
           timer_expire s' = Some (next_deadline_ns s') \<and>
           uint (next_deadline_ns s') =
             uint (next_deadline_ns s) + uint (irq_storm_period_ns s) *
               (if uint (next_deadline_ns s) + uint (irq_storm_period_ns s) \<le> uint now
                then (uint now - uint (next_deadline_ns s)) div uint (irq_storm_period_ns s) + 1
                else 1) \<and>
           uint now < uint (next_deadline_ns s')"
proof -
  from timer_cb_mid [OF en, of now] obtain m where
    cb: "irq_storm_timer_cb now s = irq_storm_schedule_next now m" and
    m: "control m = control s" "period_us m = period_us s"
       "next_deadline_ns m = next_deadline_ns s" "timer_cb_count m = timer_cb_count s + 1"
    by (elim exE conjE)
  have pm: "irq_storm_period_ns m = irq_storm_period_ns s" using m(2) by (rule period_ns_cong)
  have pre: "ctrl_enabled m" "irq_storm_period_ns m \<noteq> 0" "uint (next_deadline_ns m) < 2 ^ 62"
    using en p0 d m pm by simp_all
  from schedule_next_drift [OF pre n] obtain s' where
    r: "irq_storm_schedule_next now m = Inr s'" and
    t: "timer_expire s' = Some (next_deadline_ns s')" and
    v: "uint (next_deadline_ns s') =
             uint (next_deadline_ns m) + uint (irq_storm_period_ns m) *
               (if uint (next_deadline_ns m) + uint (irq_storm_period_ns m) \<le> uint now
                then (uint now - uint (next_deadline_ns m)) div uint (irq_storm_period_ns m) + 1
                else 1)" and
    g: "uint now < uint (next_deadline_ns s')"
    by (elim exE conjE)
  have c: "timer_cb_count s' = timer_cb_count s + 1"
    using schedule_next_fields(4) [OF r] m(4) by simp
  have e: "irq_storm_timer_cb now s = Inr s'" unfolding cb by (rule r)
  have v': "uint (next_deadline_ns s') =
             uint (next_deadline_ns s) + uint (irq_storm_period_ns s) *
               (if uint (next_deadline_ns s) + uint (irq_storm_period_ns s) \<le> uint now
                then (uint now - uint (next_deadline_ns s)) div uint (irq_storm_period_ns s) + 1
                else 1)"
    using v unfolding pm m(3) .
  from e c t v' g show ?thesis by (intro exI [of _ s'] conjI)
qed

text \<open>
  The example of a fire 3.7 periods late: deadline 100000, period 100000 ns, clock 470000.
  The new deadline is 500000, four periods after the old one, and the fire counts once.
\<close>

lemma drift_example:
  "irq_storm_timer_cb 470000 level_device =
     Inr (level_device_fired\<lparr>timer_expire := Some 500000, next_deadline_ns := 500000\<rparr>)"
  by (simp add: level_device_fired_eq level_device_eq irq_storm_instance_def
      irq_storm_timer_cb_def irq_storm_schedule_next_def qemu_irq_raise_def timer_mod_def
      irq_storm_period_ns_def SCALE_US_def ctrl_defs Let_def word_sle_eq)

text \<open>
  The period in nanoseconds is the 32-bit product of \<^verbatim>\<open>MAX(1U, period_us)\<close> and
  \<^verbatim>\<open>SCALE_US\<close>: beyond 4294967 microseconds it wraps, and for a multiple of \<open>2 ^ 29\<close>
  microseconds it is zero.
\<close>

lemma zero_period_device_eq:
  "zero_period_device = edge_device\<lparr>timer_expire := Some 0, period_us := 0x20000000,
     next_deadline_ns := 0, config_writes := 1\<rparr>"
  by (simp add: zero_period_device_def write_period_eq edge_device_eq irq_storm_instance_def
      schedule_from_now_eq irq_storm_period_ns_def SCALE_US_def ctrl_defs Let_def)

lemma reachable_zero_period_device: "reachable zero_period_device"
  unfolding zero_period_device_def using reachable_edge_device by (rule reachable.written)

lemma period_ns_wraps:
  "irq_storm_period_ns (edge_device\<lparr>period_us := 5000000\<rparr>) = 705032704"
  by (simp add: irq_storm_period_ns_def SCALE_US_def)

text \<open>
  Claim C3. After a fire the next deadline is advanced by one period and, when that is not
  in the future, in one step by the whole periods needed to pass the current time. The
  code does so for every period that is not zero (\<open>timer_cb_drift\<close>, \<open>drift_example\<close>).
  It does not at the input below: on the reachable device whose \<^verbatim>\<open>PERIOD_US\<close> is
  \<open>0x20000000\<close> the period in nanoseconds is zero, the armed deadline is due at once,
  and the fire ends in the division by zero of \<^verbatim>\<open>irq_storm_schedule_next\<close> instead of a
  new deadline.
\<close>

theorem schedule_next_zero_period:
  "reachable zero_period_device \<and>
   period_us zero_period_device = 0x20000000 \<and>
   irq_storm_period_ns zero_period_device = 0 \<and>
   timer_expire zero_period_device = Some 0 \<and>
   irq_storm_schedule_next 1000 zero_period_device = Inl DivideByZero \<and>
   timer_dispatch 1000 zero_period_device = Some (Inl DivideByZero)"
proof -
  have f: "period_us zero_period_device = 0x20000000" "control zero_period_device = 1"
    "timer_expire zero_period_device = Some 0" "next_deadline_ns zero_period_device = 0"
    by (simp_all add: zero_period_device_eq edge_device_eq)
  have p: "irq_storm_period_ns zero_period_device = 0"
    by (simp add: irq_storm_period_ns_def f SCALE_US_def)
  have due: "(0 :: i64) \<le>s 1000" by (simp add: word_sle_eq)
  have sn: "\<And>s. control s = 1 \<Longrightarrow> period_us s = 0x20000000 \<Longrightarrow> next_deadline_ns s = 0 \<Longrightarrow>
      irq_storm_schedule_next 1000 s = Inl DivideByZero"
    using due
    by (simp add: irq_storm_schedule_next_def irq_storm_period_ns_def SCALE_US_def ctrl_defs
        Let_def)
  have en: "ctrl_enabled (zero_period_device\<lparr>timer_expire := None\<rparr>)"
    and lv: "\<not> ctrl_level (zero_period_device\<lparr>timer_expire := None\<rparr>)"
    by (simp_all add: f ctrl_defs)
  have cb: "irq_storm_timer_cb 1000 (zero_period_device\<lparr>timer_expire := None\<rparr>) =
      Inl DivideByZero"
    unfolding timer_cb_edge [OF en lv] by (rule sn) (simp_all add: f)
  have "timer_dispatch 1000 zero_period_device = Some (Inl DivideByZero)"
    using due by (simp add: timer_dispatch_def f cb)
  with f p sn [of zero_period_device] reachable_zero_period_device show ?thesis by simp
qed

section \<open>Level mode: one assertion while the interrupt is held\<close>

text \<open>Writes that keep ENABLE and LEVEL set, and runs of such writes, reads and fires.\<close>

lemma ucast_period_ns_zero:
  "(ucast (x :: u32) :: u64) = 0 \<longleftrightarrow> x = 0"
proof -
  have "(ucast x :: u64) = 0 \<longleftrightarrow> unat (ucast x :: u64) = 0" by (simp add: unat_eq_zero)
  also have "\<dots> \<longleftrightarrow> unat x = 0" by (simp only: unat_ucast_32_64)
  also have "\<dots> \<longleftrightarrow> x = 0" by (simp add: unat_eq_zero)
  finally show ?thesis .
qed

lemma period_ns_zero_iff:
  "irq_storm_period_ns s = 0 \<longleftrightarrow> max 1 (period_us s) * SCALE_US = 0"
  by (simp add: irq_storm_period_ns_def ucast_period_ns_zero)

lemma write_ctrl_hold:
  assumes en: "ctrl_enabled s" and lv: "ctrl_level s"
    and v: "(ucast val :: u8) AND (IRQ_STORM_CTRL_ENABLE OR IRQ_STORM_CTRL_LEVEL) =
              IRQ_STORM_CTRL_ENABLE OR IRQ_STORM_CTRL_LEVEL"
  shows "irq_storm_write_ctrl now s val =
     (if control s = IRQ_STORM_CTRL_ENABLE OR IRQ_STORM_CTRL_LEVEL then s
      else s\<lparr>control := IRQ_STORM_CTRL_ENABLE OR IRQ_STORM_CTRL_LEVEL,
             config_writes := config_writes s + 1\<rparr>)"
proof -
  have b: "(IRQ_STORM_CTRL_ENABLE OR IRQ_STORM_CTRL_LEVEL) AND IRQ_STORM_CTRL_ENABLE \<noteq> 0"
    "(IRQ_STORM_CTRL_ENABLE OR IRQ_STORM_CTRL_LEVEL) AND IRQ_STORM_CTRL_LEVEL \<noteq> 0"
    by (simp_all add: ctrl_defs)
  show ?thesis
    using en lv b by (simp add: irq_storm_write_ctrl_def v Let_def)
qed

lemma write_hold:
  assumes en: "ctrl_enabled s" and lv: "ctrl_level s" and p: "irq_storm_period_ns s \<noteq> 0"
    and h: "level_hold_op (Write addr val)"
  shows "ctrl_enabled (irq_storm_write now s addr val) \<and>
         ctrl_level (irq_storm_write now s addr val) \<and>
         irq_storm_period_ns (irq_storm_write now s addr val) \<noteq> 0 \<and>
         timer_cb_count (irq_storm_write now s addr val) = timer_cb_count s \<and>
         irq_asserted (irq_storm_write now s addr val) = irq_asserted s \<and>
         line_level (irq_storm_write now s addr val) = line_level s \<and>
         line_raises (irq_storm_write now s addr val) = line_raises s \<and>
         pulses_emitted (irq_storm_write now s addr val) = pulses_emitted s"
proof (cases "addr = IRQ_STORM_REG_CTRL")
  case True
  with h have v: "(ucast val :: u8) AND (IRQ_STORM_CTRL_ENABLE OR IRQ_STORM_CTRL_LEVEL) =
              IRQ_STORM_CTRL_ENABLE OR IRQ_STORM_CTRL_LEVEL" by simp
  have b: "(IRQ_STORM_CTRL_ENABLE OR IRQ_STORM_CTRL_LEVEL) AND IRQ_STORM_CTRL_ENABLE \<noteq> 0"
    "(IRQ_STORM_CTRL_ENABLE OR IRQ_STORM_CTRL_LEVEL) AND IRQ_STORM_CTRL_LEVEL \<noteq> 0"
    by (simp_all add: ctrl_defs)
  show ?thesis
    unfolding True write_ctrl_eq write_ctrl_hold [OF en lv v]
    using en lv p b by (simp add: irq_storm_period_ns_def)
next
  case nc: False
  show ?thesis
  proof (cases "addr = IRQ_STORM_REG_PERIOD_US")
    case True
    with h have nz: "max (1 :: u32) (ucast val) * SCALE_US \<noteq> 0" by simp
    show ?thesis
      unfolding True write_period_eq
      using en lv p nz
      by (simp add: schedule_from_now_eq Let_def period_ns_zero_iff)
  next
    case False
    with nc h show ?thesis
      using en lv p
      by (simp add: irq_storm_write_def irq_storm_period_ns_def)
  qed
qed

lemma fire_count_simps [simp]:
  "fire_count [] = 0"
  "fire_count ((now, TimerFire) # ops) = Suc (fire_count ops)"
  "fire_count ((now, Read addr) # ops) = fire_count ops"
  "fire_count ((now, Write addr val) # ops) = fire_count ops"
  by (simp_all add: fire_count_def)

lemma run_level:
  assumes "ctrl_enabled s" "ctrl_level s" "irq_storm_period_ns s \<noteq> 0"
    and "list_all (\<lambda>p. level_hold_op (snd p)) ops"
  shows "\<exists>s'. run ops s = Inr s' \<and>
           ctrl_enabled s' \<and> ctrl_level s' \<and> irq_storm_period_ns s' \<noteq> 0 \<and>
           timer_cb_count s' = timer_cb_count s + of_nat (fire_count ops) \<and>
           (if irq_asserted s \<or> fire_count ops = 0
            then irq_asserted s' = irq_asserted s \<and> line_level s' = line_level s \<and>
                 line_raises s' = line_raises s \<and> pulses_emitted s' = pulses_emitted s
            else irq_asserted s' \<and> line_level s' \<and> line_raises s' = line_raises s + 1 \<and>
                 pulses_emitted s' = pulses_emitted s + 1)"
  using assms
proof (induction ops arbitrary: s)
  case Nil
  then show ?case by simp
next
  case (Cons p ops)
  obtain now op where p: "p = (now, op)" by (cases p)
  from Cons.prems(4) have h: "level_hold_op op"
    and hs: "list_all (\<lambda>p. level_hold_op (snd p)) ops"
    by (simp_all add: p)
  note pre = Cons.prems(1-3)
  show ?case
  proof (cases op)
    case (Read addr)
    from Cons.IH [OF pre hs] show ?thesis by (simp add: p Read)
  next
    case (Write addr val)
    let ?w = "irq_storm_write now s addr val"
    from write_hold [OF pre, of addr val now] h Write have w:
      "ctrl_enabled ?w" "ctrl_level ?w" "irq_storm_period_ns ?w \<noteq> 0"
      "timer_cb_count ?w = timer_cb_count s" "irq_asserted ?w = irq_asserted s"
      "line_level ?w = line_level s" "line_raises ?w = line_raises s"
      "pulses_emitted ?w = pulses_emitted s"
      by simp_all
    from Cons.IH [OF w(1-3) hs] obtain s' where
      f: "run ops ?w = Inr s'" and
      e2: "ctrl_enabled s'" "ctrl_level s'" "irq_storm_period_ns s' \<noteq> 0" and
      t2: "timer_cb_count s' = timer_cb_count ?w + of_nat (fire_count ops)" and
      r2: "if irq_asserted ?w \<or> fire_count ops = 0
           then irq_asserted s' = irq_asserted ?w \<and> line_level s' = line_level ?w \<and>
                line_raises s' = line_raises ?w \<and> pulses_emitted s' = pulses_emitted ?w
           else irq_asserted s' \<and> line_level s' \<and> line_raises s' = line_raises ?w + 1 \<and>
                pulses_emitted s' = pulses_emitted ?w + 1"
      by (elim exE conjE)
    have r: "run (p # ops) s = Inr s'" using f by (simp add: p Write)
    have fc: "fire_count (p # ops) = fire_count ops" by (simp add: p Write)
    have "run (p # ops) s = Inr s' \<and>
           ctrl_enabled s' \<and> ctrl_level s' \<and> irq_storm_period_ns s' \<noteq> 0 \<and>
           timer_cb_count s' = timer_cb_count s + of_nat (fire_count (p # ops)) \<and>
           (if irq_asserted s \<or> fire_count (p # ops) = 0
            then irq_asserted s' = irq_asserted s \<and> line_level s' = line_level s \<and>
                 line_raises s' = line_raises s \<and> pulses_emitted s' = pulses_emitted s
            else irq_asserted s' \<and> line_level s' \<and> line_raises s' = line_raises s + 1 \<and>
                 pulses_emitted s' = pulses_emitted s + 1)"
      using r e2 t2 r2 unfolding fc w(4-8) by (intro conjI)
    then show ?thesis by (rule exI [where x = s'])
  next
    case TimerFire
    from timer_cb_level [OF pre, of now] obtain s1 where
      cb: "irq_storm_timer_cb now s = Inr s1" and
      c1: "control s1 = control s" and p1: "period_us s1 = period_us s" and
      t1: "timer_cb_count s1 = timer_cb_count s + 1" and
      l1: "line_lowers s1 = line_lowers s" "line_pulses s1 = line_pulses s" and
      a1: "irq_asserted s1" and
      r1: "if irq_asserted s
           then line_level s1 = line_level s \<and> line_raises s1 = line_raises s \<and>
                pulses_emitted s1 = pulses_emitted s
           else line_level s1 \<and> line_raises s1 = line_raises s + 1 \<and>
                pulses_emitted s1 = pulses_emitted s + 1"
      by (elim exE conjE)
    have pre1: "ctrl_enabled s1" "ctrl_level s1" "irq_storm_period_ns s1 \<noteq> 0"
      using pre c1 period_ns_cong [OF p1] by simp_all
    from Cons.IH [OF pre1 hs] a1 obtain s' where
      f: "run ops s1 = Inr s'" and
      e2: "ctrl_enabled s'" "ctrl_level s'" "irq_storm_period_ns s' \<noteq> 0" and
      t2: "timer_cb_count s' = timer_cb_count s1 + of_nat (fire_count ops)" and
      r2: "irq_asserted s' = irq_asserted s1" "line_level s' = line_level s1"
          "line_raises s' = line_raises s1" "pulses_emitted s' = pulses_emitted s1"
      by auto
    have r: "run (p # ops) s = Inr s'" using cb f by (simp add: p TimerFire)
    have t: "timer_cb_count s' = timer_cb_count s + of_nat (fire_count (p # ops))"
      using t1 t2 by (simp add: p TimerFire)
    have fc: "fire_count (p # ops) \<noteq> 0" by (simp add: p TimerFire)
    have "run (p # ops) s = Inr s' \<and>
           ctrl_enabled s' \<and> ctrl_level s' \<and> irq_storm_period_ns s' \<noteq> 0 \<and>
           timer_cb_count s' = timer_cb_count s + of_nat (fire_count (p # ops)) \<and>
           (if irq_asserted s \<or> fire_count (p # ops) = 0
            then irq_asserted s' = irq_asserted s \<and> line_level s' = line_level s \<and>
                 line_raises s' = line_raises s \<and> pulses_emitted s' = pulses_emitted s
            else irq_asserted s' \<and> line_level s' \<and> line_raises s' = line_raises s + 1 \<and>
                 pulses_emitted s' = pulses_emitted s + 1)"
      using r e2 t fc r1 r2 a1 by (cases "irq_asserted s") simp_all
    then show ?thesis by (rule exI [where x = s'])
  qed
qed

lemma rearmed_device_eq:
  "rearmed_device = disabled_device\<lparr>timer_expire := Some 350000, control := 3,
     next_deadline_ns := 350000, config_writes := 2, enable_toggle_count := 2\<rparr>"
  by (simp add: rearmed_device_def write_ctrl_eq irq_storm_write_ctrl_def Let_def
      disabled_device_eq level_device_fired_eq level_device_eq irq_storm_instance_def
      deassert_eq schedule_from_now_eq irq_storm_period_ns_def SCALE_US_def ctrl_defs)

lemma timer_cb_rearmed_device:
  "irq_storm_timer_cb 350000 rearmed_device =
     Inr (rearmed_device\<lparr>timer_expire := Some 450000, line_level := True, line_raises := 2,
        irq_asserted := True, next_deadline_ns := 450000, pulses_emitted := 2,
        timer_cb_count := 2\<rparr>)"
  by (simp add: rearmed_device_eq disabled_device_eq level_device_fired_eq level_device_eq
      irq_storm_instance_def irq_storm_timer_cb_def irq_storm_schedule_next_def
      qemu_irq_raise_def timer_mod_def irq_storm_period_ns_def SCALE_US_def ctrl_defs Let_def
      word_sle_eq)

lemma refired_device_eq:
  "refired_device =
     rearmed_device\<lparr>timer_expire := Some 450000, line_level := True, line_raises := 2,
        irq_asserted := True, next_deadline_ns := 450000, pulses_emitted := 2,
        timer_cb_count := 2\<rparr>"
  by (simp add: refired_device_def timer_cb_rearmed_device)

text \<open>
  Claim C2, as amended. On an enabled device in level mode (LEVEL set) whose period in
  nanoseconds is not zero, the callback completes and counts the fire in
  \<open>timer_cb_count\<close>. If the line was not asserted, the fire raises it (one call of
  \<^verbatim>\<open>qemu_irq_raise\<close>), sets \<open>irq_asserted\<close> and adds exactly 1 to \<open>pulses_emitted\<close>; if
  the line was already asserted, the fire changes neither the line nor \<open>pulses_emitted\<close>.
  Hence over any run of fires interleaved with register reads and register writes, with
  no write to ACK and no CTRL write that clears ENABLE or LEVEL (and no
  \<^verbatim>\<open>PERIOD_US\<close> write that makes the period zero), the run completes, the line is raised
  at most once and \<open>pulses_emitted\<close> grows by at most 1, while \<open>timer_cb_count\<close> counts
  every fire.
\<close>

theorem level_mode_single_assert:
  assumes "ctrl_enabled s" "ctrl_level s" "irq_storm_period_ns s \<noteq> 0"
    and "list_all (\<lambda>p. level_hold_op (snd p)) ops"
  shows "(\<exists>s1. irq_storm_timer_cb now s = Inr s1 \<and>
            timer_cb_count s1 = timer_cb_count s + 1 \<and> irq_asserted s1 \<and>
            (if irq_asserted s
             then line_level s1 = line_level s \<and> line_raises s1 = line_raises s \<and>
                  pulses_emitted s1 = pulses_emitted s
             else line_level s1 \<and> line_raises s1 = line_raises s + 1 \<and>
                  pulses_emitted s1 = pulses_emitted s + 1)) \<and>
         (\<exists>s'. run ops s = Inr s' \<and>
            timer_cb_count s' = timer_cb_count s + of_nat (fire_count ops) \<and>
            (if irq_asserted s \<or> fire_count ops = 0
             then line_level s' = line_level s \<and> line_raises s' = line_raises s \<and>
                  pulses_emitted s' = pulses_emitted s
             else line_level s' \<and> line_raises s' = line_raises s + 1 \<and>
                  pulses_emitted s' = pulses_emitted s + 1))"
proof (rule conjI)
  from timer_cb_level [OF assms(1-3), of now]
  show "\<exists>s1. irq_storm_timer_cb now s = Inr s1 \<and>
            timer_cb_count s1 = timer_cb_count s + 1 \<and> irq_asserted s1 \<and>
            (if irq_asserted s
             then line_level s1 = line_level s \<and> line_raises s1 = line_raises s \<and>
                  pulses_emitted s1 = pulses_emitted s
             else line_level s1 \<and> line_raises s1 = line_raises s + 1 \<and>
                  pulses_emitted s1 = pulses_emitted s + 1)"
    by (cases "irq_asserted s") auto
next
  from run_level [OF assms]
  show "\<exists>s'. run ops s = Inr s' \<and>
            timer_cb_count s' = timer_cb_count s + of_nat (fire_count ops) \<and>
            (if irq_asserted s \<or> fire_count ops = 0
             then line_level s' = line_level s \<and> line_raises s' = line_raises s \<and>
                  pulses_emitted s' = pulses_emitted s
             else line_level s' \<and> line_raises s' = line_raises s + 1 \<and>
                  pulses_emitted s' = pulses_emitted s + 1)"
    by (cases "irq_asserted s \<or> fire_count ops = 0") auto
qed

theorem level_mode_single_assert_witness:
  "ctrl_enabled level_device \<and> ctrl_level level_device \<and>
   irq_storm_period_ns level_device \<noteq> 0 \<and>
   list_all (\<lambda>p. level_hold_op (snd p))
     [(100000, TimerFire), (120000, Read IRQ_STORM_REG_STATUS),
      (150000, Write IRQ_STORM_REG_BURST 7), (200000, TimerFire),
      (220000, Write IRQ_STORM_REG_CTRL 3), (230000, Write IRQ_STORM_REG_PERIOD_US 50),
      (300000, TimerFire)] \<and>
   (\<exists>s'. run [(100000, TimerFire), (120000, Read IRQ_STORM_REG_STATUS),
      (150000, Write IRQ_STORM_REG_BURST 7), (200000, TimerFire),
      (220000, Write IRQ_STORM_REG_CTRL 3), (230000, Write IRQ_STORM_REG_PERIOD_US 50),
      (300000, TimerFire)] level_device = Inr s' \<and>
      timer_cb_count s' = 3 \<and> line_level s' \<and> line_raises s' = 1 \<and> pulses_emitted s' = 1)"
proof -
  let ?ops = "[(100000, TimerFire), (120000, Read IRQ_STORM_REG_STATUS),
      (150000, Write IRQ_STORM_REG_BURST 7), (200000, TimerFire),
      (220000, Write IRQ_STORM_REG_CTRL 3), (230000, Write IRQ_STORM_REG_PERIOD_US 50),
      (300000, TimerFire)] :: (i64 \<times> operation) list"
  have dev: "control level_device = 3" "period_us level_device = 100"
    "\<not> irq_asserted level_device" "timer_cb_count level_device = 0"
    "line_raises level_device = 0" "pulses_emitted level_device = 0"
    by (simp_all add: level_device_eq irq_storm_instance_def)
  have h1: "ctrl_enabled level_device" and h2: "ctrl_level level_device"
    by (simp_all add: dev ctrl_defs)
  have h3: "irq_storm_period_ns level_device \<noteq> 0"
    by (simp add: irq_storm_period_ns_def dev SCALE_US_def)
  have h4: "list_all (\<lambda>p. level_hold_op (snd p)) ?ops"
    by (simp add: reg_defs ctrl_defs SCALE_US_def)
  have fc: "fire_count ?ops = 3" by simp
  from level_mode_single_assert [OF h1 h2 h3 h4, of 0]
  show ?thesis using h1 h2 h3 h4 dev unfolding fc by auto
qed

text \<open>
  Claim C2 as it was stated excludes only an ACK write between the fires. A CTRL write
  that clears ENABLE deasserts the line as well, by design: with LEVEL set throughout and
  no ACK write, the fire after the device is enabled again raises the line a second time
  and counts a second pulse.
\<close>

theorem level_mode_reassert_after_disable:
  "run [(100000, TimerFire), (150000, Write IRQ_STORM_REG_CTRL 2),
        (250000, Write IRQ_STORM_REG_CTRL 3), (350000, TimerFire)] level_device =
     Inr refired_device \<and>
   IRQ_STORM_REG_CTRL \<noteq> IRQ_STORM_REG_ACK \<and>
   irq_storm_timer_cb 100000 level_device = Inr level_device_fired \<and>
   irq_storm_write 150000 level_device_fired IRQ_STORM_REG_CTRL 2 = disabled_device \<and>
   irq_storm_write 250000 disabled_device IRQ_STORM_REG_CTRL 3 = rearmed_device \<and>
   timer_dispatch 350000 rearmed_device = Some (Inr refired_device) \<and>
   ctrl_level level_device \<and> ctrl_level level_device_fired \<and> ctrl_level disabled_device \<and>
   ctrl_level rearmed_device \<and> ctrl_level refired_device \<and>
   line_raises level_device = 0 \<and> pulses_emitted level_device = 0 \<and>
   line_raises refired_device = 2 \<and> pulses_emitted refired_device = 2"
proof -
  have w1: "irq_storm_write 150000 level_device_fired IRQ_STORM_REG_CTRL 2 = disabled_device"
    by (simp add: disabled_device_def)
  have w2: "irq_storm_write 250000 disabled_device IRQ_STORM_REG_CTRL 3 = rearmed_device"
    by (simp add: rearmed_device_def)
  have f2: "irq_storm_timer_cb 350000 rearmed_device = Inr refired_device"
    by (simp add: refired_device_eq timer_cb_rearmed_device)
  have r: "run [(100000, TimerFire), (150000, Write IRQ_STORM_REG_CTRL 2),
        (250000, Write IRQ_STORM_REG_CTRL 3), (350000, TimerFire)] level_device =
     Inr refired_device"
    by (simp add: timer_cb_level_device w1 w2 f2)
  have due: "(350000 :: i64) \<le>s 350000" by simp
  have te: "timer_expire rearmed_device = Some 350000" by (simp add: rearmed_device_eq)
  have ua: "rearmed_device\<lparr>timer_expire := None\<rparr> =
      disabled_device\<lparr>timer_expire := None, control := 3,
        next_deadline_ns := 350000, config_writes := 2, enable_toggle_count := 2\<rparr>"
    by (simp add: rearmed_device_eq)
  have d: "timer_dispatch 350000 rearmed_device = Some (Inr refired_device)"
    using due
    by (simp add: timer_dispatch_def te refired_device_eq ua rearmed_device_eq
      disabled_device_eq level_device_fired_eq level_device_eq
      irq_storm_instance_def irq_storm_timer_cb_def irq_storm_schedule_next_def
      qemu_irq_raise_def timer_mod_def irq_storm_period_ns_def SCALE_US_def ctrl_defs Let_def
      word_sle_eq)
  have lv: "ctrl_level level_device" "ctrl_level level_device_fired"
    "ctrl_level disabled_device" "ctrl_level rearmed_device" "ctrl_level refired_device"
    by (simp_all add: refired_device_eq rearmed_device_eq disabled_device_eq
        level_device_fired_eq level_device_eq ctrl_defs)
  have v: "line_raises level_device = 0" "pulses_emitted level_device = 0"
    "line_raises refired_device = 2" "pulses_emitted refired_device = 2"
    by (simp_all add: refired_device_eq level_device_eq irq_storm_instance_def)
  have na: "IRQ_STORM_REG_CTRL \<noteq> IRQ_STORM_REG_ACK" by (simp add: reg_defs)
  from r na timer_cb_level_device w1 w2 d lv v show ?thesis by (intro conjI)
qed

end
